theory Spec2Isabelle
  imports Main
begin

section \<open>Data model of learning_OOPS.py\<close>

text \<open>
  Python objects have identity and are shared: a \<open>Library\<close> holds references to
  \<open>Book\<close> and \<open>Member\<close> objects, a \<open>Member\<close> holds references to the books it
  borrowed, and a merged library shares the objects of its sources. The model keeps an
  explicit store: one list per class, a reference being the index of the object in it.
  Creating an object appends to the store, so references are never reused.
  What is printed is not kept. A \<open>print\<close> of names and titles only is left out; a
  \<open>print\<close> that formats an id is kept as the conversion of the id, which can raise.
  \<open>__del__\<close> prints a name and is left out. The private attributes \<open>__book_id\<close>
  and \<open>__member_id\<close> are the fields \<open>book_id\<close> and \<open>member_id\<close>, read through
  \<open>get_book_id\<close> and \<open>get_member_id\<close>; \<open>Person.name\<close> is \<open>name\<close> and
  \<open>Library.name\<close> is \<open>lib_name\<close>.
\<close>

type_synonym book_ref = nat
type_synonym member_ref = nat
type_synonym library_ref = nat

record book =
  title :: string
  author :: string
  book_id :: int
  is_available :: bool

text \<open>The concrete classes of members: \<open>Member\<close> and its subclasses.\<close>

datatype member_class = Member | StudentMember | FacultyMember

record member =
  name :: string
  member_id :: int
  borrowed_books :: "book_ref list"
  cls :: member_class

record library =
  lib_name :: string
  books :: "book_ref list"
  members :: "member_ref list"

record state =
  book_heap :: "book list"
  member_heap :: "member list"
  library_heap :: "library list"

definition empty_state :: state where
  "empty_state = \<lparr>book_heap = [], member_heap = [], library_heap = []\<rparr>"

text \<open>
  Two statements of the classes can raise, both \<open>ValueError\<close>. \<open>list.remove(x)\<close> raises
  when \<open>x\<close> is not in the list. Converting an \<open>int\<close> to its decimal string, which
  an f-string does for an id it formats into a message, raises when the number has more
  than \<open>sys.int_max_str_digits\<close> digits, the sign not counted; the default limit
  is 4300 (Python 3.11). Comparing ids with \<open>==\<close> and keeping them in a \<open>set\<close> never
  raises. A method that raises returns no value: its outcome is the exception with the
  state at the \<open>raise\<close>.
\<close>

datatype error = ValueError

type_synonym 'a outcome = "(error \<times> state) + ('a \<times> state)"

definition list_remove :: "'a list \<Rightarrow> 'a \<Rightarrow> error + 'a list" where
  "list_remove xs x = (if x \<in> set xs then Inr (remove1 x xs) else Inl ValueError)"

definition int_max_str_digits :: nat where
  "int_max_str_digits = 4300"

definition int_str_ok :: "int \<Rightarrow> bool" where
  "int_str_ok i \<longleftrightarrow> \<bar>i\<bar> < 10 ^ int_max_str_digits"

text \<open>\<open>str(i)\<close> for an \<open>int\<close> within the limit: its decimal digits, after \<open>-\<close> when
  it is negative.\<close>

fun digits :: "nat \<Rightarrow> string" where
  "digits n =
     (if n < 10 then [''0123456789'' ! n]
      else digits (n div 10) @ [''0123456789'' ! (n mod 10)])"

definition int_str :: "int \<Rightarrow> error + string" where
  "int_str i =
     (if int_str_ok i then Inr (if i < 0 then ''-'' @ digits (nat (- i)) else digits (nat i))
      else Inl ValueError)"

subsection \<open>Field access through the store\<close>

definition get_book_id :: "state \<Rightarrow> book_ref \<Rightarrow> int" where
  "get_book_id s b = book_id (book_heap s ! b)"

definition get_member_id :: "state \<Rightarrow> member_ref \<Rightarrow> int" where
  "get_member_id s m = member_id (member_heap s ! m)"

definition available :: "state \<Rightarrow> book_ref \<Rightarrow> bool" where
  "available s b = is_available (book_heap s ! b)"

definition borrowed :: "state \<Rightarrow> member_ref \<Rightarrow> book_ref list" where
  "borrowed s m = borrowed_books (member_heap s ! m)"

definition lib :: "state \<Rightarrow> library_ref \<Rightarrow> library" where
  "lib s l = library_heap s ! l"

text \<open>The assignments \<open>book.is_available = v\<close>, \<open>member.borrowed_books = bs\<close>,
  \<open>library.books = bs\<close> and \<open>library.members = ms\<close>.\<close>

definition set_available :: "book_ref \<Rightarrow> bool \<Rightarrow> state \<Rightarrow> state" where
  "set_available b v s =
     s\<lparr>book_heap := (book_heap s)[b := (book_heap s ! b)\<lparr>is_available := v\<rparr>]\<rparr>"

definition set_borrowed :: "member_ref \<Rightarrow> book_ref list \<Rightarrow> state \<Rightarrow> state" where
  "set_borrowed m bs s =
     s\<lparr>member_heap := (member_heap s)[m := (member_heap s ! m)\<lparr>borrowed_books := bs\<rparr>]\<rparr>"

definition set_books :: "library_ref \<Rightarrow> book_ref list \<Rightarrow> state \<Rightarrow> state" where
  "set_books l bs s =
     s\<lparr>library_heap := (library_heap s)[l := (library_heap s ! l)\<lparr>books := bs\<rparr>]\<rparr>"

definition set_members :: "library_ref \<Rightarrow> member_ref list \<Rightarrow> state \<Rightarrow> state" where
  "set_members l ms s =
     s\<lparr>library_heap := (library_heap s)[l := (library_heap s ! l)\<lparr>members := ms\<rparr>]\<rparr>"

subsection \<open>Constructors\<close>

definition Book_init :: "string \<Rightarrow> string \<Rightarrow> int \<Rightarrow> state \<Rightarrow> book_ref \<times> state" where
  "Book_init t a i s =
     (length (book_heap s),
      s\<lparr>book_heap := book_heap s @
           [\<lparr>title = t, author = a, book_id = i, is_available = True\<rparr>]\<rparr>)"

definition Member_init :: "member_class \<Rightarrow> string \<Rightarrow> int \<Rightarrow> state \<Rightarrow> member_ref \<times> state" where
  "Member_init c n i s =
     (length (member_heap s),
      s\<lparr>member_heap := member_heap s @
           [\<lparr>name = n, member_id = i, borrowed_books = [], cls = c\<rparr>]\<rparr>)"

definition Library_init :: "string \<Rightarrow> state \<Rightarrow> library_ref \<times> state" where
  "Library_init n s =
     (length (library_heap s),
      s\<lparr>library_heap := library_heap s @ [\<lparr>lib_name = n, books = [], members = []\<rparr>]\<rparr>)"

section \<open>Members\<close>

definition get_role :: "member_class \<Rightarrow> string" where
  "get_role c = (case c of Member \<Rightarrow> ''Member'' | StudentMember \<Rightarrow> ''Student''
                 | FacultyMember \<Rightarrow> ''Faculty'')"

definition StudentMember_MAX_BORROW :: nat where
  "StudentMember_MAX_BORROW = 3"

definition FacultyMember_MAX_BORROW :: nat where
  "FacultyMember_MAX_BORROW = 10"

definition Member_borrow_book :: "member_ref \<Rightarrow> book_ref \<Rightarrow> state \<Rightarrow> bool \<times> state" where
  "Member_borrow_book m b s =
     (if available s b then
        (let s1 = set_available b False s;
             s2 = set_borrowed m (borrowed s1 m @ [b]) s1
         in (True, s2))
      else (False, s))"

definition StudentMember_borrow_book :: "member_ref \<Rightarrow> book_ref \<Rightarrow> state \<Rightarrow> bool \<times> state" where
  "StudentMember_borrow_book m b s =
     (if length (borrowed s m) \<ge> StudentMember_MAX_BORROW then (False, s)
      else if \<not> available s b then (False, s)
      else (let s1 = set_available b False s;
                s2 = set_borrowed m (borrowed s1 m @ [b]) s1
            in (True, s2)))"

definition FacultyMember_borrow_book :: "member_ref \<Rightarrow> book_ref \<Rightarrow> state \<Rightarrow> bool \<times> state" where
  "FacultyMember_borrow_book m b s =
     (if length (borrowed s m) \<ge> FacultyMember_MAX_BORROW then (False, s)
      else if \<not> available s b then (False, s)
      else (let s1 = set_available b False s;
                s2 = set_borrowed m (borrowed s1 m @ [b]) s1
            in (True, s2)))"

text \<open>The call \<open>member.borrow_book(book)\<close>: the method of the object's class runs.
  The messages of the three methods format names and titles, and \<open>MAX_BORROW\<close>, which
  is 3 or 10: none of them can raise.\<close>

definition borrow_book :: "member_ref \<Rightarrow> book_ref \<Rightarrow> state \<Rightarrow> bool \<times> state" where
  "borrow_book m b s =
     (case cls (member_heap s ! m) of
        Member \<Rightarrow> Member_borrow_book m b s
      | StudentMember \<Rightarrow> StudentMember_borrow_book m b s
      | FacultyMember \<Rightarrow> FacultyMember_borrow_book m b s)"

text \<open>\<open>Member.return_book\<close>: the loop over \<open>self.borrowed_books\<close>, which returns at
  the first book whose id matches, after removing it from the list.\<close>

fun return_book_loop ::
  "member_ref \<Rightarrow> int \<Rightarrow> book_ref list \<Rightarrow> state \<Rightarrow> bool outcome" where
  "return_book_loop m bid [] s =
     (case int_str bid of Inl e \<Rightarrow> Inl (e, s) | Inr msg \<Rightarrow> Inr (False, s))"
| "return_book_loop m bid (b # bs) s =
     (if get_book_id s b = bid then
        (let s1 = set_available b True s in
         case list_remove (borrowed s1 m) b of
           Inl e \<Rightarrow> Inl (e, s1)
         | Inr bs' \<Rightarrow> Inr (True, set_borrowed m bs' s1))
      else return_book_loop m bid bs s)"

definition Member_return_book :: "member_ref \<Rightarrow> int \<Rightarrow> state \<Rightarrow> bool outcome" where
  "Member_return_book m bid s = return_book_loop m bid (borrowed s m) s"




section \<open>Library\<close>

definition add_book :: "library_ref \<Rightarrow> book_ref \<Rightarrow> state \<Rightarrow> state" where
  "add_book l b s = set_books l (books (lib s l) @ [b]) s"

fun remove_book_loop ::
  "library_ref \<Rightarrow> int \<Rightarrow> book_ref list \<Rightarrow> state \<Rightarrow> bool outcome" where
  "remove_book_loop l bid [] s =
     (case int_str bid of Inl e \<Rightarrow> Inl (e, s) | Inr msg \<Rightarrow> Inr (False, s))"
| "remove_book_loop l bid (b # bs) s =
     (if get_book_id s b = bid \<and> available s b then
        (case list_remove (books (lib s l)) b of
           Inl e \<Rightarrow> Inl (e, s)
         | Inr bs' \<Rightarrow> Inr (True, set_books l bs' s))
      else remove_book_loop l bid bs s)"

definition remove_book :: "library_ref \<Rightarrow> int \<Rightarrow> state \<Rightarrow> bool outcome" where
  "remove_book l bid s = remove_book_loop l bid (books (lib s l)) s"


definition find_book :: "state \<Rightarrow> library_ref \<Rightarrow> int \<Rightarrow> book_ref option" where
  "find_book s l bid = List.find (\<lambda>b. get_book_id s b = bid) (books (lib s l))"

text \<open>\<open>add_member\<close> appends first and then prints the id of the member.\<close>

definition add_member :: "library_ref \<Rightarrow> member_ref \<Rightarrow> state \<Rightarrow> unit outcome" where
  "add_member l m s =
     (let s1 = set_members l (members (lib s l) @ [m]) s in
      case int_str (get_member_id s1 m) of Inl e \<Rightarrow> Inl (e, s1) | Inr msg \<Rightarrow> Inr ((), s1))"

definition get_member_by_id :: "state \<Rightarrow> library_ref \<Rightarrow> int \<Rightarrow> member_ref option" where
  "get_member_by_id s l mid = List.find (\<lambda>m. get_member_id s m = mid) (members (lib s l))"

definition Library_borrow :: "library_ref \<Rightarrow> int \<Rightarrow> int \<Rightarrow> state \<Rightarrow> bool outcome" where
  "Library_borrow l mid bid s =
     (let member = get_member_by_id s l mid;
          book = find_book s l bid
      in case member of
           None \<Rightarrow> (case int_str mid of Inl e \<Rightarrow> Inl (e, s) | Inr msg \<Rightarrow> Inr (False, s))
         | Some m \<Rightarrow>
             (case book of
                None \<Rightarrow> (case int_str bid of Inl e \<Rightarrow> Inl (e, s) | Inr msg \<Rightarrow> Inr (False, s))
              | Some b \<Rightarrow> Inr (borrow_book m b s)))"

definition Library_return_book ::
  "library_ref \<Rightarrow> int \<Rightarrow> int \<Rightarrow> state \<Rightarrow> bool outcome" where
  "Library_return_book l mid bid s =
     (case get_member_by_id s l mid of
        None \<Rightarrow> (case int_str mid of Inl e \<Rightarrow> Inl (e, s) | Inr msg \<Rightarrow> Inr (False, s))
      | Some m \<Rightarrow> Member_return_book m bid s)"

text \<open>The two loops of \<open>Library.__add__\<close>: \<open>seen\<close> is the set of ids met so far and
  \<open>acc\<close> the list being filled (\<open>merged.books\<close>, \<open>merged.members\<close>).\<close>

fun merge_loop :: "('a \<Rightarrow> int) \<Rightarrow> 'a list \<Rightarrow> int set \<Rightarrow> 'a list \<Rightarrow> 'a list" where
  "merge_loop key [] seen acc = acc"
| "merge_loop key (x # xs) seen acc =
     (if key x \<notin> seen then merge_loop key xs (insert (key x) seen) (acc @ [x])
      else merge_loop key xs seen acc)"

text \<open>\<open>Library.__add__(self, other)\<close>: the name is built first, then the new library,
  then the two loops fill it.\<close>

definition Library_add :: "library_ref \<Rightarrow> library_ref \<Rightarrow> state \<Rightarrow> library_ref \<times> state" where
  "Library_add self other s =
     (let (merged, s1) = Library_init (lib_name (lib s self) @ '' & '' @ lib_name (lib s other)) s;
          s2 = set_books merged
                 (merge_loop (get_book_id s1) (books (lib s1 self) @ books (lib s1 other)) {}
                    (books (lib s1 merged))) s1;
          s3 = set_members merged
                 (merge_loop (get_member_id s2) (members (lib s2 self) @ members (lib s2 other)) {}
                    (members (lib s2 merged))) s2
      in (merged, s3))"

section \<open>Sequences of calls on one library\<close>

text \<open>
  What a client of a library can do: create a book or a member (the constructors), and
  call the methods of the library on it. A call that passes an object passes a reference
  to an object that exists.
\<close>

datatype call =
    NewBook string string int
  | NewMember member_class string int
  | AddBook book_ref
  | AddMember member_ref
  | RemoveBook int
  | FindBook int
  | GetMemberById int
  | Borrow int int
  | ReturnBook int int

datatype result = RNone | RBool bool | RRef nat | RFound "nat option"

fun valid_call :: "state \<Rightarrow> call \<Rightarrow> bool" where
  "valid_call s (AddBook b) = (b < length (book_heap s))"
| "valid_call s (AddMember m) = (m < length (member_heap s))"
| "valid_call s c = True"

text \<open>One call on library \<open>l\<close>: the value returned and the new state, or the exception
  raised.\<close>

fun step :: "library_ref \<Rightarrow> call \<Rightarrow> state \<Rightarrow> result outcome" where
  "step l (NewBook t a i) s = (case Book_init t a i s of (r, s') \<Rightarrow> Inr (RRef r, s'))"
| "step l (NewMember c n i) s = (case Member_init c n i s of (r, s') \<Rightarrow> Inr (RRef r, s'))"
| "step l (AddBook b) s = Inr (RNone, add_book l b s)"
| "step l (AddMember m) s =
     (case add_member l m s of Inl e \<Rightarrow> Inl e | Inr (r, s') \<Rightarrow> Inr (RNone, s'))"
| "step l (RemoveBook bid) s =
     (case remove_book l bid s of Inl e \<Rightarrow> Inl e | Inr (r, s') \<Rightarrow> Inr (RBool r, s'))"
| "step l (FindBook bid) s = Inr (RFound (find_book s l bid), s)"
| "step l (GetMemberById mid) s = Inr (RFound (get_member_by_id s l mid), s)"
| "step l (Borrow mid bid) s =
     (case Library_borrow l mid bid s of Inl e \<Rightarrow> Inl e | Inr (r, s') \<Rightarrow> Inr (RBool r, s'))"
| "step l (ReturnBook mid bid) s =
     (case Library_return_book l mid bid s of Inl e \<Rightarrow> Inl e
      | Inr (r, s') \<Rightarrow> Inr (RBool r, s'))"


text \<open>A sequence of calls. The client may catch an exception and go on: the next call
  then starts from the state at the \<open>raise\<close>. There is no run when a call passes a
  reference to an object that does not exist.\<close>

fun run :: "library_ref \<Rightarrow> call list \<Rightarrow> state \<Rightarrow> state option" where
  "run l [] s = Some s"
| "run l (c # cs) s =
     (if valid_call s c then
        (case step l c s of Inl (e, s') \<Rightarrow> run l cs s' | Inr (r, s') \<Rightarrow> run l cs s')
      else None)"

text \<open>\<open>Library(name)\<close> in a program that has created nothing else: the new library
  has reference 0.\<close>

definition fresh_library :: "string \<Rightarrow> state" where
  "fresh_library n = snd (Library_init n empty_state)"

subsection \<open>Invariants of the states reached\<close>

text \<open>
  \<open>refs_ok\<close>: the library exists and holds references to objects that exist.
  \<open>loans_ok\<close>: a borrowed list has no book twice, its books are unavailable books of
  the library and its owner is a member of the library; an unavailable book is in some
  borrowed list; no book is in two borrowed lists. \<open>caps_ok\<close>: the limits of the two
  subclasses.
\<close>

definition refs_ok :: "library_ref \<Rightarrow> state \<Rightarrow> bool" where
  "refs_ok l s \<longleftrightarrow>
     l < length (library_heap s) \<and>
     (\<forall>b \<in> set (books (lib s l)). b < length (book_heap s)) \<and>
     (\<forall>m \<in> set (members (lib s l)). m < length (member_heap s))"

definition loans_ok :: "library_ref \<Rightarrow> state \<Rightarrow> bool" where
  "loans_ok l s \<longleftrightarrow>
     (\<forall>m < length (member_heap s).
        distinct (borrowed s m) \<and>
        (\<forall>b \<in> set (borrowed s m).
           b \<in> set (books (lib s l)) \<and> \<not> available s b \<and> m \<in> set (members (lib s l)))) \<and>
     (\<forall>b < length (book_heap s).
        \<not> available s b \<longrightarrow> (\<exists>m < length (member_heap s). b \<in> set (borrowed s m))) \<and>
     (\<forall>m < length (member_heap s). \<forall>m' < length (member_heap s). \<forall>b.
        b \<in> set (borrowed s m) \<longrightarrow> b \<in> set (borrowed s m') \<longrightarrow> m = m')"

definition caps_ok :: "state \<Rightarrow> bool" where
  "caps_ok s \<longleftrightarrow>
     (\<forall>m < length (member_heap s).
        (cls (member_heap s ! m) = StudentMember \<longrightarrow>
           length (borrowed s m) \<le> StudentMember_MAX_BORROW) \<and>
        (cls (member_heap s ! m) = FacultyMember \<longrightarrow>
           length (borrowed s m) \<le> FacultyMember_MAX_BORROW))"

definition invariant :: "library_ref \<Rightarrow> state \<Rightarrow> bool" where
  "invariant l s \<longleftrightarrow> refs_ok l s \<and> loans_ok l s \<and> caps_ok s"

section \<open>Merging: the loop and the specification\<close>

text \<open>
  The specification's wording of deduplication, to compare with \<open>merge_loop\<close>: going
  through the list in order, an element is kept and every later element with the same
  id is dropped, so the first occurrence of each id stays, in its place.
\<close>

fun dedup_first :: "('a \<Rightarrow> int) \<Rightarrow> 'a list \<Rightarrow> 'a list" where
  "dedup_first key [] = []"
| "dedup_first key (x # xs) = x # dedup_first key (filter (\<lambda>y. key y \<noteq> key x) xs)"

section \<open>Example states\<close>

text \<open>Two libraries whose book ids are 1, 2 and 2, 3, with three members of ids
  1, 1 and 2; and the state after merging library 0 with library 1.\<close>

definition library_pair :: state where
  "library_pair =
     \<lparr>book_heap =
        [\<lparr>title = ''Python Basics'', author = ''Guido van Rossum'', book_id = 1, is_available = True\<rparr>,
         \<lparr>title = ''Data Structures'', author = ''N. Wirth'', book_id = 2, is_available = True\<rparr>,
         \<lparr>title = ''Algorithms'', author = ''N. Wirth'', book_id = 2, is_available = True\<rparr>,
         \<lparr>title = ''Deep Learning'', author = ''Goodfellow et al.'', book_id = 3, is_available = True\<rparr>],
      member_heap =
        [\<lparr>name = ''Alice'', member_id = 1, borrowed_books = [], cls = StudentMember\<rparr>,
         \<lparr>name = ''Charlie'', member_id = 1, borrowed_books = [], cls = StudentMember\<rparr>,
         \<lparr>name = ''Prof. Dana'', member_id = 2, borrowed_books = [], cls = FacultyMember\<rparr>],
      library_heap =
        [\<lparr>lib_name = ''Central Library'', books = [0, 1], members = [0]\<rparr>,
         \<lparr>lib_name = ''AI Library'', books = [2, 3], members = [1, 2]\<rparr>]\<rparr>"

definition library_pair_merged :: state where
  "library_pair_merged =
     library_pair\<lparr>library_heap := library_heap library_pair @
        [\<lparr>lib_name = ''Central Library & AI Library'', books = [0, 1, 3], members = [0, 2]\<rparr>]\<rparr>"

text \<open>A library that holds two books of id 7, and a library with nothing in it.\<close>

definition twin_books :: state where
  "twin_books =
     \<lparr>book_heap =
        [\<lparr>title = ''Emma'', author = ''J. Austen'', book_id = 7, is_available = True\<rparr>,
         \<lparr>title = ''Persuasion'', author = ''J. Austen'', book_id = 7, is_available = True\<rparr>],
      member_heap =
        [\<lparr>name = ''Alice'', member_id = 1, borrowed_books = [], cls = StudentMember\<rparr>,
         \<lparr>name = ''Dr. Bob'', member_id = 1, borrowed_books = [], cls = FacultyMember\<rparr>],
      library_heap =
        [\<lparr>lib_name = ''Central Library'', books = [0, 1], members = [0, 1]\<rparr>,
         \<lparr>lib_name = ''Annex'', books = [], members = []\<rparr>]\<rparr>"

definition twin_books_merged :: state where
  "twin_books_merged =
     twin_books\<lparr>library_heap := library_heap twin_books @
        [\<lparr>lib_name = ''Central Library & Annex'', books = [0], members = [0]\<rparr>]\<rparr>"

text \<open>The seed data of one library, after Alice has borrowed book 101.\<close>

definition demo_calls :: "call list" where
  "demo_calls =
     [NewBook ''Python Basics'' ''Guido van Rossum'' 101, AddBook 0,
      NewBook ''Data Structures'' ''N. Wirth'' 102, AddBook 1,
      NewMember StudentMember ''Alice'' 1, AddMember 0,
      NewMember FacultyMember ''Dr. Bob'' 2, AddMember 1,
      Borrow 1 101]"

definition demo_state :: state where
  "demo_state =
     \<lparr>book_heap =
        [\<lparr>title = ''Python Basics'', author = ''Guido van Rossum'', book_id = 101, is_available = False\<rparr>,
         \<lparr>title = ''Data Structures'', author = ''N. Wirth'', book_id = 102, is_available = True\<rparr>],
      member_heap =
        [\<lparr>name = ''Alice'', member_id = 1, borrowed_books = [0], cls = StudentMember\<rparr>,
         \<lparr>name = ''Dr. Bob'', member_id = 2, borrowed_books = [], cls = FacultyMember\<rparr>],
      library_heap =
        [\<lparr>lib_name = ''Central Library'', books = [0, 1], members = [0, 1]\<rparr>]\<rparr>"



text \<open>Two libraries, each with one book of id 5, and Alice registered in both: she has
  borrowed the book of the first library.\<close>

definition two_libraries :: state where
  "two_libraries = snd (Library_init ''AI Library'' (fresh_library ''Central Library''))"

definition first_library_calls :: "call list" where
  "first_library_calls =
     [NewBook ''Emma'' ''J. Austen'' 5, AddBook 0,
      NewMember StudentMember ''Alice'' 1, AddMember 0,
      Borrow 1 5]"

definition second_library_calls :: "call list" where
  "second_library_calls = [NewBook ''Persuasion'' ''J. Austen'' 5, AddBook 1, AddMember 0]"

definition same_id_loan :: state where
  "same_id_loan =
     \<lparr>book_heap =
        [\<lparr>title = ''Emma'', author = ''J. Austen'', book_id = 5, is_available = False\<rparr>,
         \<lparr>title = ''Persuasion'', author = ''J. Austen'', book_id = 5, is_available = True\<rparr>],
      member_heap =
        [\<lparr>name = ''Alice'', member_id = 1, borrowed_books = [0], cls = StudentMember\<rparr>],
      library_heap =
        [\<lparr>lib_name = ''Central Library'', books = [0], members = [0]\<rparr>,
         \<lparr>lib_name = ''AI Library'', books = [1], members = [0]\<rparr>]\<rparr>"





section \<open>Properties of the merge loop\<close>

lemma merge_loop_acc: "merge_loop key xs seen acc = acc @ merge_loop key xs seen []"
proof (induction xs arbitrary: seen acc)
  case Nil
  show ?case by simp
next
  case (Cons x xs)
  show ?case
    using Cons.IH [of "insert (key x) seen" "acc @ [x]"] Cons.IH [of "insert (key x) seen" "[x]"]
      Cons.IH [of seen acc]
    by simp
qed

lemma merge_loop_dedup_first:
  "merge_loop key xs seen [] = dedup_first key (filter (\<lambda>x. key x \<notin> seen) xs)"
proof (induction xs arbitrary: seen)
  case Nil
  show ?case by simp
next
  case (Cons x xs)
  have flt: "filter (\<lambda>y. key y \<noteq> key x) (filter (\<lambda>y. key y \<notin> seen) xs)
      = filter (\<lambda>y. key y \<notin> insert (key x) seen) xs"
    by (induction xs) auto
  show ?case
  proof (cases "key x \<in> seen")
    case True
    then show ?thesis using Cons.IH [of seen] by simp
  next
    case False
    have "merge_loop key (x # xs) seen [] = x # merge_loop key xs (insert (key x) seen) []"
      using False merge_loop_acc [of key xs "insert (key x) seen" "[x]"] by simp
    also have "\<dots> = x # dedup_first key (filter (\<lambda>y. key y \<notin> insert (key x) seen) xs)"
      using Cons.IH [of "insert (key x) seen"] by simp
    also have "\<dots> = dedup_first key (filter (\<lambda>y. key y \<notin> seen) (x # xs))"
      using False flt by simp
    finally show ?thesis .
  qed
qed

lemma dedup_first_set: "set (dedup_first key xs) \<subseteq> set xs"
  by (induction key xs rule: dedup_first.induct) auto

lemma dedup_first_keys: "key ` set (dedup_first key xs) = key ` set xs"
  by (induction key xs rule: dedup_first.induct) auto

lemma dedup_first_distinct: "distinct (map key (dedup_first key xs))"
proof (induction key xs rule: dedup_first.induct)
  case (1 key)
  show ?case by simp
next
  case (2 key x xs)
  have "key x \<notin> key ` set (dedup_first key (filter (\<lambda>y. key y \<noteq> key x) xs))"
    using dedup_first_set [of key "filter (\<lambda>y. key y \<noteq> key x) xs"] by auto
  then show ?case using 2 by simp
qed

lemma dedup_first_find:
  "x \<in> set (dedup_first key xs) \<Longrightarrow> List.find (\<lambda>y. key y = key x) xs = Some x"
proof (induction key xs rule: dedup_first.induct)
  case (1 key)
  then show ?case by simp
next
  case (2 key z xs)
  show ?case
  proof (cases "x = z")
    case True
    then show ?thesis by simp
  next
    case False
    then have in_rest: "x \<in> set (dedup_first key (filter (\<lambda>y. key y \<noteq> key z) xs))"
      using 2 by simp
    then have kx: "key x \<noteq> key z"
      using dedup_first_set [of key "filter (\<lambda>y. key y \<noteq> key z) xs"] by auto
    have "List.find (\<lambda>y. key y = key x) (filter (\<lambda>y. key y \<noteq> key z) xs) = Some x"
      using 2 in_rest by simp
    moreover have "List.find (\<lambda>y. key y = key x) (filter (\<lambda>y. key y \<noteq> key z) xs)
        = List.find (\<lambda>y. key y = key x) xs"
      using kx by (induction xs) auto
    ultimately show ?thesis using kx by simp
  qed
qed

lemma find_SomeD_set: "List.find P xs = Some x \<Longrightarrow> x \<in> set xs"
  by (auto simp: find_Some_iff)

lemma find_append_first:
  "List.find P xs = Some x \<Longrightarrow> List.find P (xs @ ys) = Some x"
  by (induction xs) auto

lemma find_filter_other:
  "key x \<noteq> key z \<Longrightarrow>
   List.find (\<lambda>y. key y = key x) (filter (\<lambda>y. key y \<noteq> key z) xs)
     = List.find (\<lambda>y. key y = key x) xs"
  by (induction xs) auto

lemma dedup_first_has_first:
  "List.find (\<lambda>y. key y = key x) xs = Some x \<Longrightarrow> x \<in> set (dedup_first key xs)"
proof (induction key xs rule: dedup_first.induct)
  case (1 key)
  then show ?case by simp
next
  case (2 key z xs)
  show ?case
  proof (cases "key z = key x")
    case True
    then show ?thesis using 2(2) by simp
  next
    case False
    then have "List.find (\<lambda>y. key y = key x) xs = Some x" using 2(2) by simp
    then have "List.find (\<lambda>y. key y = key x) (filter (\<lambda>y. key y \<noteq> key z) xs) = Some x"
      using False by (simp add: find_filter_other)
    then show ?thesis using 2(1) by simp
  qed
qed

lemma dedup_first_set_eq:
  "set (dedup_first key xs) = {x \<in> set xs. List.find (\<lambda>y. key y = key x) xs = Some x}"
  using dedup_first_set [of key xs] dedup_first_find [of _ key xs]
    dedup_first_has_first [of key _ xs]
  by auto

lemma dedup_first_length: "length (dedup_first key xs) = card (key ` set xs)"
proof -
  have "length (dedup_first key xs) = length (map key (dedup_first key xs))" by simp
  also have "\<dots> = card (set (map key (dedup_first key xs)))"
    using dedup_first_distinct [of key xs] distinct_card by fastforce
  also have "\<dots> = card (key ` set xs)" by (simp add: dedup_first_keys)
  finally show ?thesis .
qed

lemma dedup_first_shorter:
  "\<not> distinct (map key xs) \<Longrightarrow> length (dedup_first key xs) < length xs"
proof -
  assume nd: "\<not> distinct (map key xs)"
  have "card (set (map key xs)) \<le> length (map key xs)" by (rule card_length)
  moreover have "card (set (map key xs)) \<noteq> length (map key xs)"
    using nd card_distinct by blast
  ultimately show ?thesis by (simp add: dedup_first_length)
qed

section \<open>Formatting an id\<close>

lemma int_str_ok_small [simp]: "\<bar>i\<bar> < 1000000 \<Longrightarrow> int_str_ok i"
proof -
  assume small: "\<bar>i\<bar> < 1000000"
  have "(10::int) ^ 6 \<le> 10 ^ int_max_str_digits"
    unfolding int_max_str_digits_def by (rule power_increasing) simp_all
  moreover have "(10::int) ^ 6 = 1000000" by simp
  ultimately have "(1000000::int) \<le> 10 ^ int_max_str_digits" by simp
  then show ?thesis using small unfolding int_str_ok_def by (rule less_le_trans [rotated])
qed

lemma int_str_limit [simp]: "\<not> int_str_ok (10 ^ int_max_str_digits)"
  by (simp add: int_str_ok_def)

lemma limit_not_small [simp]:
  assumes "\<bar>i::int\<bar> < 1000000"
  shows "(i = 10 ^ int_max_str_digits) = False" and "(10 ^ int_max_str_digits = i) = False"
proof -
  have "int_str_ok i" using assms by (rule int_str_ok_small)
  then have "i \<noteq> 10 ^ int_max_str_digits" using int_str_limit by blast
  then show "(i = 10 ^ int_max_str_digits) = False" and "(10 ^ int_max_str_digits = i) = False"
    by auto
qed

lemma int_str_case [simp]:
  "(case int_str i of Inl e \<Rightarrow> f e | Inr msg \<Rightarrow> g) = (if int_str_ok i then g else f ValueError)"
  by (simp add: int_str_def)

lemma int_str_Inr: "(\<exists>msg. int_str i = Inr msg) \<longleftrightarrow> int_str_ok i"
  by (simp add: int_str_def)

section \<open>What each operation computes\<close>

lemma return_book_loop_eq:
  "set bs \<subseteq> set (borrowed s m) \<Longrightarrow>
   return_book_loop m bid bs s =
     (case List.find (\<lambda>b. get_book_id s b = bid) bs of
        None \<Rightarrow> (if int_str_ok bid then Inr (False, s) else Inl (ValueError, s))
      | Some b \<Rightarrow> Inr (True, set_borrowed m (remove1 b (borrowed s m)) (set_available b True s)))"
proof (induction bs)
  case Nil
  show ?case by simp
next
  case (Cons b bs)
  have same: "borrowed (set_available b True s) m = borrowed s m"
    by (simp add: borrowed_def set_available_def)
  show ?case using Cons by (simp add: list_remove_def same)
qed

lemma Member_return_book_eq:
  "Member_return_book m bid s =
     (case List.find (\<lambda>b. get_book_id s b = bid) (borrowed s m) of
        None \<Rightarrow> (if int_str_ok bid then Inr (False, s) else Inl (ValueError, s))
      | Some b \<Rightarrow> Inr (True, set_borrowed m (remove1 b (borrowed s m)) (set_available b True s)))"
  unfolding Member_return_book_def by (rule return_book_loop_eq) simp

lemma remove_book_loop_eq:
  "set bs \<subseteq> set (books (lib s l)) \<Longrightarrow>
   remove_book_loop l bid bs s =
     (case List.find (\<lambda>b. get_book_id s b = bid \<and> available s b) bs of
        None \<Rightarrow> (if int_str_ok bid then Inr (False, s) else Inl (ValueError, s))
      | Some b \<Rightarrow> Inr (True, set_books l (remove1 b (books (lib s l))) s))"
  by (induction bs) (simp_all add: list_remove_def)

lemma remove_book_eq:
  "remove_book l bid s =
     (case List.find (\<lambda>b. get_book_id s b = bid \<and> available s b) (books (lib s l)) of
        None \<Rightarrow> (if int_str_ok bid then Inr (False, s) else Inl (ValueError, s))
      | Some b \<Rightarrow> Inr (True, set_books l (remove1 b (books (lib s l))) s))"
  unfolding remove_book_def by (rule remove_book_loop_eq) simp

lemma borrow_book_eq:
  "borrow_book m b s =
     (if (cls (member_heap s ! m) = StudentMember \<and> StudentMember_MAX_BORROW \<le> length (borrowed s m))
         \<or> (cls (member_heap s ! m) = FacultyMember \<and> FacultyMember_MAX_BORROW \<le> length (borrowed s m))
         \<or> \<not> available s b
      then (False, s)
      else (True, set_borrowed m (borrowed s m @ [b]) (set_available b False s)))"
proof -
  have same: "borrowed (set_available b False s) m = borrowed s m"
    by (simp add: borrowed_def set_available_def)
  show ?thesis
    by (cases "cls (member_heap s ! m)")
      (simp_all add: borrow_book_def Member_borrow_book_def StudentMember_borrow_book_def
        FacultyMember_borrow_book_def same)
qed

lemma Library_add_eq:
  assumes "self < length (library_heap s)" "other < length (library_heap s)"
  shows "Library_add self other s =
    (length (library_heap s),
     s\<lparr>library_heap := library_heap s @
        [\<lparr>lib_name = lib_name (lib s self) @ '' & '' @ lib_name (lib s other),
          books = dedup_first (get_book_id s) (books (lib s self) @ books (lib s other)),
          members = dedup_first (get_member_id s) (members (lib s self) @ members (lib s other))\<rparr>]\<rparr>)"
proof -
  define s1 where "s1 = snd (Library_init (lib_name (lib s self) @ '' & '' @ lib_name (lib s other)) s)"
  define n where "n = length (library_heap s)"
  have l1: "lib s1 self = lib s self" "lib s1 other = lib s other"
    using assms by (simp_all add: s1_def Library_init_def lib_def nth_append)
  have k1: "get_book_id s1 = get_book_id s"
    by (rule ext) (simp add: s1_def Library_init_def get_book_id_def)
  have m1: "books (lib s1 n) = []" "members (lib s1 n) = []"
    by (simp_all add: s1_def n_def Library_init_def lib_def)
  define s2 where "s2 = set_books n (dedup_first (get_book_id s) (books (lib s self) @ books (lib s other))) s1"
  have l2: "lib s2 self = lib s self" "lib s2 other = lib s other"
    using assms l1 by (simp_all add: s2_def set_books_def lib_def n_def)
  have k2: "get_member_id s2 = get_member_id s"
    by (rule ext) (simp add: s2_def set_books_def s1_def Library_init_def get_member_id_def)
  have m2: "members (lib s2 n) = []"
    by (simp add: s2_def set_books_def s1_def n_def Library_init_def lib_def)
  have fst_init: "Library_init (lib_name (lib s self) @ '' & '' @ lib_name (lib s other)) s = (n, s1)"
    by (simp add: s1_def n_def Library_init_def)
  have "Library_add self other s =
      (n, set_members n (dedup_first (get_member_id s) (members (lib s self) @ members (lib s other))) s2)"
    unfolding Library_add_def fst_init
    by (simp add: Let_def l1 k1 m1 merge_loop_dedup_first [where seen = "{}", simplified]
        s2_def [symmetric] l2 k2 m2)
  also have "\<dots> = (length (library_heap s),
     s\<lparr>library_heap := library_heap s @
        [\<lparr>lib_name = lib_name (lib s self) @ '' & '' @ lib_name (lib s other),
          books = dedup_first (get_book_id s) (books (lib s self) @ books (lib s other)),
          members = dedup_first (get_member_id s) (members (lib s self) @ members (lib s other))\<rparr>]\<rparr>)"
    by (simp add: s2_def s1_def n_def set_members_def set_books_def Library_init_def)
  finally show ?thesis .
qed

section \<open>Merging two libraries\<close>



text \<open>
  Claim C9. Merging changes neither source library: after \<open>self + other\<close> the two
  libraries have the name, the books and the members they had, every book and every
  member object is as it was, and the only change to the store is the new library, which
  differs from both sources. The new library holds no object of its own: each of its
  books and members is an object of one of the sources.
\<close>

theorem merge_leaves_sources:
  assumes "self < length (library_heap s)" and "other < length (library_heap s)"
    and "Library_add self other s = (merged, s')"
  shows "lib s' self = lib s self \<and> lib s' other = lib s other \<and>
    book_heap s' = book_heap s \<and> member_heap s' = member_heap s \<and>
    merged \<noteq> self \<and> merged \<noteq> other \<and>
    length (library_heap s') = Suc (length (library_heap s)) \<and>
    take (length (library_heap s)) (library_heap s') = library_heap s \<and>
    set (books (lib s' merged)) \<subseteq> set (books (lib s self)) \<union> set (books (lib s other)) \<and>
    set (members (lib s' merged)) \<subseteq> set (members (lib s self)) \<union> set (members (lib s other))"
proof -
  have eq: "merged = length (library_heap s)"
    "s' = s\<lparr>library_heap := library_heap s @
        [\<lparr>lib_name = lib_name (lib s self) @ '' & '' @ lib_name (lib s other),
          books = dedup_first (get_book_id s) (books (lib s self) @ books (lib s other)),
          members = dedup_first (get_member_id s) (members (lib s self) @ members (lib s other))\<rparr>]\<rparr>"
    using assms(3) Library_add_eq [OF assms(1,2)] by simp_all
  have old: "lib s' self = lib s self" "lib s' other = lib s other"
    using assms(1,2) by (simp_all add: eq lib_def nth_append)
  have bs: "set (books (lib s' merged)) \<subseteq> set (books (lib s self)) \<union> set (books (lib s other))"
    using dedup_first_set [of "get_book_id s" "books (lib s self) @ books (lib s other)"]
    by (simp add: eq lib_def)
  have ms: "set (members (lib s' merged)) \<subseteq> set (members (lib s self)) \<union> set (members (lib s other))"
    using dedup_first_set [of "get_member_id s" "members (lib s self) @ members (lib s other)"]
    by (simp add: eq lib_def)
  have heaps: "book_heap s' = book_heap s" "member_heap s' = member_heap s"
    "length (library_heap s') = Suc (length (library_heap s))"
    "take (length (library_heap s)) (library_heap s') = library_heap s"
    by (simp_all add: eq)
  have fresh: "merged \<noteq> self" "merged \<noteq> other"
    using assms(1,2) eq(1) by simp_all
  show ?thesis using old bs ms heaps fresh by simp
qed

theorem merge_leaves_sources_witness:
  "0 < length (library_heap library_pair) \<and> 1 < length (library_heap library_pair) \<and>
   Library_add 0 1 library_pair = (2, library_pair_merged) \<and>
   lib library_pair_merged 0 = lib library_pair 0 \<and>
   lib library_pair_merged 1 = lib library_pair 1 \<and>
   book_heap library_pair_merged = book_heap library_pair \<and>
   member_heap library_pair_merged = member_heap library_pair"
proof -
  have h1: "0 < length (library_heap library_pair)" and h2: "1 < length (library_heap library_pair)"
    by (simp_all add: library_pair_def)
  have h3: "Library_add 0 1 library_pair = (2, library_pair_merged)"
    unfolding Library_add_eq [OF h1 h2]
    by (simp add: library_pair_merged_def library_pair_def lib_def get_book_id_def get_member_id_def)
  show ?thesis
    using merge_leaves_sources [OF h1 h2 h3] h1 h2 h3 by blast
qed

text \<open>
  Claim C10. The merge deduplicates inside one source as well as across the two. The
  merged books are exactly the first book of each id in the books of \<open>self\<close> followed by
  those of \<open>other\<close>, in that order, so their ids are pairwise distinct; the same holds
  for members. So when \<open>self\<close> holds two book objects of one id, the first of that id is
  in the merged library and the other is not, and when moreover \<open>other\<close> holds no book,
  the merged library has strictly fewer books than \<open>self\<close>; likewise for members.
\<close>

theorem merge_dedups_within_source:
  assumes "self < length (library_heap s)" and "other < length (library_heap s)"
    and "Library_add self other s = (merged, s')"
  shows "books (lib s' merged) =
      dedup_first (get_book_id s) (books (lib s self) @ books (lib s other)) \<and>
    members (lib s' merged) =
      dedup_first (get_member_id s) (members (lib s self) @ members (lib s other)) \<and>
    set (books (lib s' merged)) =
      {b \<in> set (books (lib s self) @ books (lib s other)).
         List.find (\<lambda>x. get_book_id s x = get_book_id s b)
           (books (lib s self) @ books (lib s other)) = Some b} \<and>
    set (members (lib s' merged)) =
      {m \<in> set (members (lib s self) @ members (lib s other)).
         List.find (\<lambda>x. get_member_id s x = get_member_id s m)
           (members (lib s self) @ members (lib s other)) = Some m} \<and>
    distinct (map (get_book_id s') (books (lib s' merged))) \<and>
    distinct (map (get_member_id s') (members (lib s' merged))) \<and>
    (\<forall>x y. List.find (\<lambda>z. get_book_id s z = get_book_id s x) (books (lib s self)) = Some x \<and>
        y \<in> set (books (lib s self)) \<and> get_book_id s y = get_book_id s x \<and> y \<noteq> x \<longrightarrow>
       x \<in> set (books (lib s' merged)) \<and> y \<notin> set (books (lib s' merged))) \<and>
    (\<forall>x y. List.find (\<lambda>z. get_member_id s z = get_member_id s x) (members (lib s self)) = Some x \<and>
        y \<in> set (members (lib s self)) \<and> get_member_id s y = get_member_id s x \<and> y \<noteq> x \<longrightarrow>
       x \<in> set (members (lib s' merged)) \<and> y \<notin> set (members (lib s' merged))) \<and>
    (\<not> distinct (map (get_book_id s) (books (lib s self))) \<and> books (lib s other) = [] \<longrightarrow>
       length (books (lib s' merged)) < length (books (lib s self))) \<and>
    (\<not> distinct (map (get_member_id s) (members (lib s self))) \<and> members (lib s other) = [] \<longrightarrow>
       length (members (lib s' merged)) < length (members (lib s self)))"
proof -
  let ?B = "books (lib s self) @ books (lib s other)"
  let ?M = "members (lib s self) @ members (lib s other)"
  have eq: "merged = length (library_heap s)"
    "s' = s\<lparr>library_heap := library_heap s @
        [\<lparr>lib_name = lib_name (lib s self) @ '' & '' @ lib_name (lib s other),
          books = dedup_first (get_book_id s) ?B,
          members = dedup_first (get_member_id s) ?M\<rparr>]\<rparr>"
    using assms(3) Library_add_eq [OF assms(1,2)] by simp_all
  have bs: "books (lib s' merged) = dedup_first (get_book_id s) ?B"
    and ms: "members (lib s' merged) = dedup_first (get_member_id s) ?M"
    by (simp_all add: eq lib_def)
  have ids: "get_book_id s' = get_book_id s" "get_member_id s' = get_member_id s"
    by (rule ext, simp add: eq get_book_id_def, rule ext, simp add: eq get_member_id_def)
  have sb: "set (books (lib s' merged)) =
      {b \<in> set ?B. List.find (\<lambda>x. get_book_id s x = get_book_id s b) ?B = Some b}"
    unfolding bs by (rule dedup_first_set_eq)
  have sm: "set (members (lib s' merged)) =
      {m \<in> set ?M. List.find (\<lambda>x. get_member_id s x = get_member_id s m) ?M = Some m}"
    unfolding ms by (rule dedup_first_set_eq)
  have d1: "distinct (map (get_book_id s') (books (lib s' merged)))"
    unfolding bs ids by (rule dedup_first_distinct)
  have d2: "distinct (map (get_member_id s') (members (lib s' merged)))"
    unfolding ms ids by (rule dedup_first_distinct)
  have two_books: "x \<in> set (books (lib s' merged)) \<and> y \<notin> set (books (lib s' merged))"
    if f: "List.find (\<lambda>z. get_book_id s z = get_book_id s x) (books (lib s self)) = Some x"
      and y: "get_book_id s y = get_book_id s x" "y \<noteq> x" for x y
  proof -
    have first: "List.find (\<lambda>z. get_book_id s z = get_book_id s x) ?B = Some x"
      using f by (rule find_append_first)
    then have "x \<in> set ?B" by (auto dest: find_SomeD_set)
    moreover have "List.find (\<lambda>z. get_book_id s z = get_book_id s y) ?B \<noteq> Some y"
      using first y by simp
    ultimately show ?thesis using first unfolding sb by simp
  qed
  have two_members: "x \<in> set (members (lib s' merged)) \<and> y \<notin> set (members (lib s' merged))"
    if f: "List.find (\<lambda>z. get_member_id s z = get_member_id s x) (members (lib s self)) = Some x"
      and y: "get_member_id s y = get_member_id s x" "y \<noteq> x" for x y
  proof -
    have first: "List.find (\<lambda>z. get_member_id s z = get_member_id s x) ?M = Some x"
      using f by (rule find_append_first)
    then have "x \<in> set ?M" by (auto dest: find_SomeD_set)
    moreover have "List.find (\<lambda>z. get_member_id s z = get_member_id s y) ?M \<noteq> Some y"
      using first y by simp
    ultimately show ?thesis using first unfolding sm by simp
  qed
  have s1: "length (books (lib s' merged)) < length (books (lib s self))"
    if "\<not> distinct (map (get_book_id s) (books (lib s self)))" "books (lib s other) = []"
    using that dedup_first_shorter [of "get_book_id s" "books (lib s self)"] by (simp add: bs)
  have s2: "length (members (lib s' merged)) < length (members (lib s self))"
    if "\<not> distinct (map (get_member_id s) (members (lib s self)))" "members (lib s other) = []"
    using that dedup_first_shorter [of "get_member_id s" "members (lib s self)"] by (simp add: ms)
  have c7: "\<forall>x y. List.find (\<lambda>z. get_book_id s z = get_book_id s x) (books (lib s self)) = Some x \<and>
        y \<in> set (books (lib s self)) \<and> get_book_id s y = get_book_id s x \<and> y \<noteq> x \<longrightarrow>
       x \<in> set (books (lib s' merged)) \<and> y \<notin> set (books (lib s' merged))"
    using two_books by blast
  have c8: "\<forall>x y. List.find (\<lambda>z. get_member_id s z = get_member_id s x) (members (lib s self)) = Some x \<and>
        y \<in> set (members (lib s self)) \<and> get_member_id s y = get_member_id s x \<and> y \<noteq> x \<longrightarrow>
       x \<in> set (members (lib s' merged)) \<and> y \<notin> set (members (lib s' merged))"
    using two_members by blast
  have c9: "\<not> distinct (map (get_book_id s) (books (lib s self))) \<and> books (lib s other) = [] \<longrightarrow>
       length (books (lib s' merged)) < length (books (lib s self))"
    using s1 by blast
  have c10: "\<not> distinct (map (get_member_id s) (members (lib s self))) \<and> members (lib s other) = [] \<longrightarrow>
       length (members (lib s' merged)) < length (members (lib s self))"
    using s2 by blast
  show ?thesis by (intro conjI bs ms sb sm d1 d2 c7 c8 c9 c10)
qed

theorem merge_dedups_within_source_witness:
  "0 < length (library_heap twin_books) \<and> 1 < length (library_heap twin_books) \<and>
   Library_add 0 1 twin_books = (2, twin_books_merged) \<and>
   \<not> distinct (map (get_book_id twin_books) (books (lib twin_books 0))) \<and>
   books (lib twin_books 1) = [] \<and>
   \<not> distinct (map (get_member_id twin_books) (members (lib twin_books 0))) \<and>
   members (lib twin_books 1) = [] \<and>
   books (lib twin_books 0) = [0, 1] \<and> members (lib twin_books 0) = [0, 1] \<and>
   get_book_id twin_books 1 = get_book_id twin_books 0 \<and>
   get_member_id twin_books 1 = get_member_id twin_books 0 \<and>
   books (lib twin_books_merged 2) = [0] \<and> members (lib twin_books_merged 2) = [0] \<and>
   0 \<in> set (books (lib twin_books_merged 2)) \<and> 1 \<notin> set (books (lib twin_books_merged 2)) \<and>
   length (books (lib twin_books_merged 2)) < length (books (lib twin_books 0)) \<and>
   length (members (lib twin_books_merged 2)) < length (members (lib twin_books 0))"
proof -
  have h1: "0 < length (library_heap twin_books)" and h2: "1 < length (library_heap twin_books)"
    by (simp_all add: twin_books_def)
  have h3: "Library_add 0 1 twin_books = (2, twin_books_merged)"
    unfolding Library_add_eq [OF h1 h2]
    by (simp add: twin_books_merged_def twin_books_def lib_def get_book_id_def get_member_id_def)
  have pre: "\<not> distinct (map (get_book_id twin_books) (books (lib twin_books 0)))"
    "books (lib twin_books 1) = []"
    "\<not> distinct (map (get_member_id twin_books) (members (lib twin_books 0)))"
    "members (lib twin_books 1) = []"
    "books (lib twin_books 0) = [0, 1]" "members (lib twin_books 0) = [0, 1]"
    "get_book_id twin_books 1 = get_book_id twin_books 0"
    "get_member_id twin_books 1 = get_member_id twin_books 0"
    by (simp_all add: twin_books_def lib_def get_book_id_def get_member_id_def)
  have post: "books (lib twin_books_merged 2) = [0]" "members (lib twin_books_merged 2) = [0]"
    by (simp_all add: twin_books_merged_def twin_books_def lib_def)
  have in_out: "0 \<in> set (books (lib twin_books_merged 2))"
    "1 \<notin> set (books (lib twin_books_merged 2))"
    by (simp_all add: post)
  have shorter: "length (books (lib twin_books_merged 2)) < length (books (lib twin_books 0))"
    "length (members (lib twin_books_merged 2)) < length (members (lib twin_books 0))"
    using merge_dedups_within_source [OF h1 h2 h3] pre(1-4) by blast+
  show ?thesis
    by (intro conjI h1 h2 h3 pre post in_out shorter)
qed

section \<open>The store under the operations\<close>

subsection \<open>Assignments and the fields they leave alone\<close>

lemma length_set_available [simp]:
  "length (book_heap (set_available b v s)) = length (book_heap s)"
  "member_heap (set_available b v s) = member_heap s"
  "library_heap (set_available b v s) = library_heap s"
  by (simp_all add: set_available_def)

lemma length_set_borrowed [simp]:
  "book_heap (set_borrowed m bs s) = book_heap s"
  "length (member_heap (set_borrowed m bs s)) = length (member_heap s)"
  "library_heap (set_borrowed m bs s) = library_heap s"
  by (simp_all add: set_borrowed_def)

lemma length_set_books [simp]:
  "book_heap (set_books l bs s) = book_heap s"
  "member_heap (set_books l bs s) = member_heap s"
  "length (library_heap (set_books l bs s)) = length (library_heap s)"
  by (simp_all add: set_books_def)

lemma length_set_members [simp]:
  "book_heap (set_members l ms s) = book_heap s"
  "member_heap (set_members l ms s) = member_heap s"
  "length (library_heap (set_members l ms s)) = length (library_heap s)"
  by (simp_all add: set_members_def)

lemma available_set_available:
  "b < length (book_heap s) \<Longrightarrow>
   available (set_available b v s) b' = (if b' = b then v else available s b')"
  by (simp add: available_def set_available_def nth_list_update)


lemma get_book_id_set_available [simp]:
  "get_book_id (set_available b v s) b' = get_book_id s b'"
  by (cases "b < length (book_heap s)")
    (simp_all add: get_book_id_def set_available_def nth_list_update list_update_beyond)

lemma available_others [simp]:
  "available (set_borrowed m bs s) b = available s b"
  "available (set_books l xs s) b = available s b"
  "available (set_members l ms s) b = available s b"
  by (simp_all add: available_def)

lemma get_book_id_others [simp]:
  "get_book_id (set_borrowed m bs s) b = get_book_id s b"
  "get_book_id (set_books l xs s) b = get_book_id s b"
  "get_book_id (set_members l ms s) b = get_book_id s b"
  by (simp_all add: get_book_id_def)

lemma borrowed_set_borrowed:
  "m < length (member_heap s) \<Longrightarrow>
   borrowed (set_borrowed m bs s) m' = (if m' = m then bs else borrowed s m')"
  by (simp add: borrowed_def set_borrowed_def nth_list_update)

lemma borrowed_set_borrowed_other:
  "m' \<noteq> m \<Longrightarrow> borrowed (set_borrowed m bs s) m' = borrowed s m'"
  by (simp add: borrowed_def set_borrowed_def)

lemma borrowed_others [simp]:
  "borrowed (set_available b v s) m = borrowed s m"
  "borrowed (set_books l xs s) m = borrowed s m"
  "borrowed (set_members l ms s) m = borrowed s m"
  by (simp_all add: borrowed_def)

lemma member_fields_set_borrowed [simp]:
  "cls (member_heap (set_borrowed m bs s) ! m') = cls (member_heap s ! m')"
  "get_member_id (set_borrowed m bs s) m' = get_member_id s m'"
  by (cases "m < length (member_heap s)",
      simp_all add: get_member_id_def set_borrowed_def nth_list_update list_update_beyond)+

lemma get_member_id_others [simp]:
  "get_member_id (set_available b v s) m = get_member_id s m"
  "get_member_id (set_books l xs s) m = get_member_id s m"
  "get_member_id (set_members l ms s) m = get_member_id s m"
  by (simp_all add: get_member_id_def)

lemma lib_others [simp]:
  "lib (set_available b v s) l = lib s l"
  "lib (set_borrowed m bs s) l = lib s l"
  by (simp_all add: lib_def)

lemma lib_set_books:
  "l < length (library_heap s) \<Longrightarrow>
   lib (set_books l bs s) l' = (if l' = l then (lib s l)\<lparr>books := bs\<rparr> else lib s l')"
  by (simp add: lib_def set_books_def nth_list_update)

lemma lib_set_members:
  "l < length (library_heap s) \<Longrightarrow>
   lib (set_members l ms s) l' = (if l' = l then (lib s l)\<lparr>members := ms\<rparr> else lib s l')"
  by (simp add: lib_def set_members_def nth_list_update)

subsection \<open>Lookups\<close>

lemma find_book_None: "find_book s l bid = None \<longleftrightarrow>
    (\<forall>b \<in> set (books (lib s l)). get_book_id s b \<noteq> bid)"
  by (auto simp: find_book_def find_None_iff)

lemma find_book_Some:
  "find_book s l bid = Some b \<Longrightarrow> b \<in> set (books (lib s l)) \<and> get_book_id s b = bid"
  by (auto simp: find_book_def find_Some_iff)

lemma get_member_by_id_None: "get_member_by_id s l mid = None \<longleftrightarrow>
    (\<forall>m \<in> set (members (lib s l)). get_member_id s m \<noteq> mid)"
  by (auto simp: get_member_by_id_def find_None_iff)

lemma get_member_by_id_Some:
  "get_member_by_id s l mid = Some m \<Longrightarrow> m \<in> set (members (lib s l)) \<and> get_member_id s m = mid"
  by (auto simp: get_member_by_id_def find_Some_iff)

lemma Library_return_book_eq:
  "Library_return_book l mid bid s =
     (case get_member_by_id s l mid of
        None \<Rightarrow> (if int_str_ok mid then Inr (False, s) else Inl (ValueError, s))
      | Some m \<Rightarrow>
          (case List.find (\<lambda>b. get_book_id s b = bid) (borrowed s m) of
             None \<Rightarrow> (if int_str_ok bid then Inr (False, s) else Inl (ValueError, s))
           | Some b \<Rightarrow>
               Inr (True, set_borrowed m (remove1 b (borrowed s m)) (set_available b True s))))"
  by (simp add: Library_return_book_def Member_return_book_eq split: option.splits)

lemma Library_borrow_eq:
  "Library_borrow l mid bid s =
     (case get_member_by_id s l mid of
        None \<Rightarrow> (if int_str_ok mid then Inr (False, s) else Inl (ValueError, s))
      | Some m \<Rightarrow>
          (case find_book s l bid of
             None \<Rightarrow> (if int_str_ok bid then Inr (False, s) else Inl (ValueError, s))
           | Some b \<Rightarrow> Inr (borrow_book m b s)))"
  by (simp add: Library_borrow_def split: option.splits)

lemma add_member_eq:
  "add_member l m s =
     (if int_str_ok (get_member_id s m)
      then Inr ((), set_members l (members (lib s l) @ [m]) s)
      else Inl (ValueError, set_members l (members (lib s l) @ [m]) s))"
  by (simp add: add_member_def)


section \<open>Running the examples\<close>

lemmas eval_defs = fresh_library_def Library_init_def empty_state_def Book_init_def Member_init_def
  add_book_def add_member_def set_books_def set_members_def set_available_def set_borrowed_def
  lib_def available_def borrowed_def get_book_id_def get_member_id_def
  Library_borrow_def get_member_by_id_def find_book_def borrow_book_def
  Member_borrow_book_def StudentMember_borrow_book_def FacultyMember_borrow_book_def
  StudentMember_MAX_BORROW_def FacultyMember_MAX_BORROW_def
  Library_return_book_def Member_return_book_def remove_book_def list_remove_def Let_def

lemma demo_run: "run 0 demo_calls (fresh_library ''Central Library'') = Some demo_state"
  by (simp add: demo_calls_def demo_state_def eval_defs)


lemma same_id_run:
  "Option.bind (run 0 first_library_calls two_libraries) (run 1 second_library_calls)
     = Some same_id_loan"
  by (simp add: first_library_calls_def second_library_calls_def two_libraries_def
      same_id_loan_def eval_defs)



section \<open>Borrowing through the library\<close>

text \<open>
  Claim C7, as amended. \<open>Library.borrow(member_id, book_id)\<close> returns \<open>False\<close> and
  leaves the whole state as it was when the library has no member of that id and the
  member id has at most 4300 digits, and when it has such a member, no book of that id,
  and the book id has at most 4300 digits. When the absent id that the message reports
  has more digits, the call raises \<open>ValueError\<close>. When the library has both, the call
  returns what \<open>borrow_book\<close> of the member found (the first of that id in the library)
  returns on the book found (the first of that id), result and state.
\<close>

theorem Library_borrow_delegates:
  "((\<forall>m \<in> set (members (lib s l)). get_member_id s m \<noteq> mid) \<longrightarrow>
      Library_borrow l mid bid s =
        (if int_str_ok mid then Inr (False, s) else Inl (ValueError, s))) \<and>
   ((\<exists>m \<in> set (members (lib s l)). get_member_id s m = mid) \<and>
    (\<forall>b \<in> set (books (lib s l)). get_book_id s b \<noteq> bid) \<longrightarrow>
      Library_borrow l mid bid s =
        (if int_str_ok bid then Inr (False, s) else Inl (ValueError, s))) \<and>
   ((\<exists>m \<in> set (members (lib s l)). get_member_id s m = mid) \<and>
    (\<exists>b \<in> set (books (lib s l)). get_book_id s b = bid)
      \<longrightarrow> (\<exists>m b. get_member_by_id s l mid = Some m \<and> find_book s l bid = Some b \<and>
             m \<in> set (members (lib s l)) \<and> get_member_id s m = mid \<and>
             b \<in> set (books (lib s l)) \<and> get_book_id s b = bid \<and>
             Library_borrow l mid bid s = Inr (borrow_book m b s)))"
proof (intro conjI impI)
  assume "\<forall>m \<in> set (members (lib s l)). get_member_id s m \<noteq> mid"
  then have "get_member_by_id s l mid = None"
    by (simp add: get_member_by_id_None)
  then show "Library_borrow l mid bid s =
      (if int_str_ok mid then Inr (False, s) else Inl (ValueError, s))"
    by (simp add: Library_borrow_eq)
next
  assume h: "(\<exists>m \<in> set (members (lib s l)). get_member_id s m = mid) \<and>
    (\<forall>b \<in> set (books (lib s l)). get_book_id s b \<noteq> bid)"
  then obtain m where m: "get_member_by_id s l mid = Some m"
    using get_member_by_id_None [of s l mid] by (cases "get_member_by_id s l mid") auto
  have "find_book s l bid = None"
    using h by (simp add: find_book_None)
  then show "Library_borrow l mid bid s =
      (if int_str_ok bid then Inr (False, s) else Inl (ValueError, s))"
    by (simp add: Library_borrow_eq m)
next
  assume both: "(\<exists>m \<in> set (members (lib s l)). get_member_id s m = mid) \<and>
    (\<exists>b \<in> set (books (lib s l)). get_book_id s b = bid)"
  then obtain m where m: "get_member_by_id s l mid = Some m"
    using get_member_by_id_None [of s l mid] by (cases "get_member_by_id s l mid") auto
  from both obtain b where b: "find_book s l bid = Some b"
    using find_book_None [of s l bid] by (cases "find_book s l bid") auto
  have "Library_borrow l mid bid s = Inr (borrow_book m b s)"
    by (simp add: Library_borrow_eq m b)
  then show "\<exists>m b. get_member_by_id s l mid = Some m \<and> find_book s l bid = Some b \<and>
             m \<in> set (members (lib s l)) \<and> get_member_id s m = mid \<and>
             b \<in> set (books (lib s l)) \<and> get_book_id s b = bid \<and>
             Library_borrow l mid bid s = Inr (borrow_book m b s)"
    using m b get_member_by_id_Some [OF m] find_book_Some [OF b] by blast
qed

theorem Library_borrow_delegates_witness:
  "9 \<notin> get_member_id demo_state ` set (members (lib demo_state 0)) \<and> int_str_ok 9 \<and>
   Library_borrow 0 9 102 demo_state = Inr (False, demo_state) \<and>
   77 \<notin> get_book_id demo_state ` set (books (lib demo_state 0)) \<and> int_str_ok 77 \<and>
   Library_borrow 0 2 77 demo_state = Inr (False, demo_state) \<and>
   get_member_by_id demo_state 0 2 = Some 1 \<and> find_book demo_state 0 102 = Some 1 \<and>
   Library_borrow 0 2 102 demo_state = Inr (borrow_book 1 1 demo_state) \<and>
   fst (borrow_book 1 1 demo_state) = True"
proof -
  have no_member: "\<forall>m \<in> set (members (lib demo_state 0)). get_member_id demo_state m \<noteq> 9"
    and no_book: "\<forall>b \<in> set (books (lib demo_state 0)). get_book_id demo_state b \<noteq> 77"
    by (simp_all add: demo_state_def lib_def get_member_id_def get_book_id_def)
  have found: "\<exists>m \<in> set (members (lib demo_state 0)). get_member_id demo_state m = 2"
    "\<exists>b \<in> set (books (lib demo_state 0)). get_book_id demo_state b = 102"
    by (simp_all add: demo_state_def lib_def get_member_id_def get_book_id_def)
  have ok: "int_str_ok 9" "int_str_ok 77"
    by simp_all
  have look: "get_member_by_id demo_state 0 2 = Some 1" "find_book demo_state 0 102 = Some 1"
    by (simp_all add: demo_state_def eval_defs)
  have r1: "Library_borrow 0 9 102 demo_state = Inr (False, demo_state)"
    using Library_borrow_delegates [of demo_state 0 9 102] no_member ok(1) by simp
  have r2: "Library_borrow 0 2 77 demo_state = Inr (False, demo_state)"
    using Library_borrow_delegates [of demo_state 0 2 77] found(1) no_book ok(2) by simp
  have r3: "Library_borrow 0 2 102 demo_state = Inr (borrow_book 1 1 demo_state)"
    using Library_borrow_delegates [of demo_state 0 2 102] found look by auto
  have r4: "fst (borrow_book 1 1 demo_state) = True"
    by (simp add: demo_state_def eval_defs)
  show ?thesis using no_member no_book ok look r1 r2 r3 r4 by auto
qed

theorem Library_borrow_delegates_counterexample:
  "10 ^ int_max_str_digits \<notin> get_member_id demo_state ` set (members (lib demo_state 0)) \<and>
   get_member_by_id demo_state 0 (10 ^ int_max_str_digits) = None \<and>
   Library_borrow 0 (10 ^ int_max_str_digits) 102 demo_state = Inl (ValueError, demo_state) \<and>
   Library_borrow 0 (10 ^ int_max_str_digits) 102 demo_state \<noteq> Inr (False, demo_state)"
  by (simp add: demo_state_def eval_defs)

section \<open>Failure is a return value\<close>




section \<open>Borrowing and returning\<close>

lemma find_first_match:
  "\<forall>x \<in> set xs. \<not> P x \<Longrightarrow> P y \<Longrightarrow> List.find P (xs @ [y]) = Some y"
  by (induction xs) auto

lemma remove1_last: "y \<notin> set xs \<Longrightarrow> remove1 y (xs @ [y]) = xs"
  by (induction xs) auto

lemma set_available_restore:
  "b < length (book_heap s) \<Longrightarrow> available s b \<Longrightarrow>
   set_available b True (set_available b False s) = s"
proof -
  assume b: "b < length (book_heap s)" and a: "available s b"
  have "(book_heap s ! b)\<lparr>is_available := True\<rparr> = book_heap s ! b"
    using a by (simp add: available_def)
  then show ?thesis
    using b by (simp add: set_available_def)
qed

lemma set_borrowed_restore:
  "m < length (member_heap s) \<Longrightarrow>
   set_borrowed m (borrowed s m) (set_borrowed m bs s) = s"
  by (simp add: set_borrowed_def borrowed_def)

lemma set_borrowed_set_available:
  "set_borrowed m bs (set_available b v s) = set_available b v (set_borrowed m bs s)"
  by (simp add: set_borrowed_def set_available_def)

text \<open>
  Claim C5, as amended. Let a member and a book exist, the member holding no book with
  the id of this book. If the member's \<open>borrow_book\<close> on the book succeeds, then the book
  was available, it is now unavailable and last in the member's borrowed list, and
  \<open>return_book\<close> on its id succeeds and gives back exactly the state before the borrow:
  the book is available again, the borrowed list is what it was, and no other book,
  member or library has changed.
\<close>

theorem borrow_then_return:
  assumes "m < length (member_heap s)" and "b < length (book_heap s)"
    and "\<forall>x \<in> set (borrowed s m). get_book_id s x \<noteq> get_book_id s b"
    and "borrow_book m b s = (True, s')"
  shows "available s b \<and> \<not> available s' b \<and> borrowed s' m = borrowed s m @ [b] \<and>
    Member_return_book m (get_book_id s' b) s' = Inr (True, s)"
proof -
  have av: "available s b" and s': "s' = set_borrowed m (borrowed s m @ [b]) (set_available b False s)"
    using assms(4) by (auto simp: borrow_book_eq split: if_splits)
  have nav: "\<not> available s' b"
    using assms(2) by (simp add: s' available_set_available)
  have bs: "borrowed s' m = borrowed s m @ [b]"
    using assms(1) by (simp add: s' borrowed_set_borrowed)
  have ids: "get_book_id s' = get_book_id s"
    by (rule ext) (simp add: s')
  have notin: "b \<notin> set (borrowed s m)"
    using assms(3) by blast
  have found: "List.find (\<lambda>x. get_book_id s' x = get_book_id s' b) (borrowed s' m) = Some b"
    unfolding bs ids using assms(3) by (intro find_first_match) simp_all
  have restored: "set_borrowed m (remove1 b (borrowed s' m)) (set_available b True s') = s"
  proof -
    have "set_available b True s' =
        set_borrowed m (borrowed s m @ [b]) (set_available b True (set_available b False s))"
      by (simp add: s' set_borrowed_set_available)
    also have "\<dots> = set_borrowed m (borrowed s m @ [b]) s"
      using assms(2) av by (simp add: set_available_restore)
    finally have "set_available b True s' = set_borrowed m (borrowed s m @ [b]) s" .
    moreover have "remove1 b (borrowed s' m) = borrowed s m"
      using notin by (simp add: bs remove1_last)
    ultimately show ?thesis
      using assms(1) by (simp add: set_borrowed_restore)
  qed
  have "Member_return_book m (get_book_id s' b) s' = Inr (True, s)"
    by (simp add: Member_return_book_eq found restored)
  then show ?thesis using av nav bs by simp
qed

theorem borrow_then_return_witness:
  "1 < length (member_heap demo_state) \<and> 1 < length (book_heap demo_state) \<and>
   borrowed demo_state 1 = [] \<and>
   borrow_book 1 1 demo_state =
     (True, set_borrowed 1 [1] (set_available 1 False demo_state)) \<and>
   Member_return_book 1 102 (set_borrowed 1 [1] (set_available 1 False demo_state))
     = Inr (True, demo_state)"
proof -
  have h1: "1 < length (member_heap demo_state)" and h2: "1 < length (book_heap demo_state)"
    by (simp_all add: demo_state_def)
  have e: "borrowed demo_state 1 = []"
    by (simp add: demo_state_def borrowed_def)
  have h3: "\<forall>x \<in> set (borrowed demo_state 1). get_book_id demo_state x \<noteq> get_book_id demo_state 1"
    unfolding e by simp
  have h4: "borrow_book 1 1 demo_state =
     (True, set_borrowed 1 [1] (set_available 1 False demo_state))"
    by (simp add: demo_state_def eval_defs)
  have id: "get_book_id (set_borrowed 1 [1] (set_available 1 False demo_state)) 1 = 102"
    by (simp add: demo_state_def eval_defs)
  show ?thesis
    using borrow_then_return [OF h1 h2 h3 h4] h1 h2 e h4 id by simp
qed

theorem borrow_then_return_counterexample:
  "Option.bind (run 0 first_library_calls two_libraries) (run 1 second_library_calls)
     = Some same_id_loan \<and>
   available same_id_loan 1 \<and>
   borrow_book 0 1 same_id_loan =
     (True, set_borrowed 0 [0, 1] (set_available 1 False same_id_loan)) \<and>
   Member_return_book 0 5 (set_borrowed 0 [0, 1] (set_available 1 False same_id_loan)) =
     Inr (True, set_borrowed 0 [1] (set_available 0 True
            (set_borrowed 0 [0, 1] (set_available 1 False same_id_loan)))) \<and>
   \<not> available (set_borrowed 0 [1] (set_available 0 True
            (set_borrowed 0 [0, 1] (set_available 1 False same_id_loan)))) 1 \<and>
   borrowed (set_borrowed 0 [1] (set_available 0 True
            (set_borrowed 0 [0, 1] (set_available 1 False same_id_loan)))) 0 = [1] \<and>
   \<not> available same_id_loan 0 \<and>
   available (set_borrowed 0 [1] (set_available 0 True
            (set_borrowed 0 [0, 1] (set_available 1 False same_id_loan)))) 0"
  using same_id_run by (simp add: same_id_loan_def eval_defs)

section \<open>The transitions of a book\<close>

lemma available_Book_init:
  "b < length (book_heap s) \<Longrightarrow> available (snd (Book_init t a i s)) b = available s b"
  by (simp add: Book_init_def available_def nth_append)

lemma available_Member_init [simp]:
  "available (snd (Member_init c n i s)) b = available s b"
  by (simp add: Member_init_def available_def)

lemma Library_borrow_cases:
  "Library_borrow l mid bid s = Inr (r, s') \<Longrightarrow>
   (\<not> r \<and> s' = s) \<or>
   (r \<and> (\<exists>m b. get_member_by_id s l mid = Some m \<and> find_book s l bid = Some b \<and>
        available s b \<and>
        \<not> (cls (member_heap s ! m) = StudentMember \<and>
             StudentMember_MAX_BORROW \<le> length (borrowed s m)) \<and>
        \<not> (cls (member_heap s ! m) = FacultyMember \<and>
             FacultyMember_MAX_BORROW \<le> length (borrowed s m)) \<and>
        s' = set_borrowed m (borrowed s m @ [b]) (set_available b False s)))"
  by (auto simp: Library_borrow_eq borrow_book_eq split: option.splits if_splits)

lemma Library_return_book_cases:
  "Library_return_book l mid bid s = Inr (r, s') \<Longrightarrow>
   (\<not> r \<and> s' = s) \<or>
   (r \<and> (\<exists>m b. get_member_by_id s l mid = Some m \<and>
        List.find (\<lambda>b. get_book_id s b = bid) (borrowed s m) = Some b \<and>
        s' = set_borrowed m (remove1 b (borrowed s m)) (set_available b True s)))"
  by (auto simp: Library_return_book_eq split: option.splits if_splits)

lemma remove_book_cases:
  "remove_book l bid s = Inr (r, s') \<Longrightarrow>
   (\<not> r \<and> s' = s) \<or>
   (r \<and> (\<exists>b. List.find (\<lambda>b. get_book_id s b = bid \<and> available s b) (books (lib s l)) = Some b \<and>
        s' = set_books l (remove1 b (books (lib s l))) s))"
  by (auto simp: remove_book_eq split: option.splits if_splits)

lemma find_SomeD: "List.find P xs = Some x \<Longrightarrow> x \<in> set xs \<and> P x"
  by (auto simp: find_Some_iff)



section \<open>The invariant of a library\<close>

lemma invariant_fresh: "invariant 0 (fresh_library n)"
  by (simp add: invariant_def refs_ok_def loans_ok_def caps_ok_def fresh_library_def
      Library_init_def empty_state_def lib_def)

lemma invariant_Book_init:
  assumes "invariant l s"
  shows "invariant l (snd (Book_init t a i s))"
proof -
  let ?s = "snd (Book_init t a i s)"
  have f: "lib ?s = lib s" "borrowed ?s = borrowed s" "member_heap ?s = member_heap s"
    "library_heap ?s = library_heap s" "length (book_heap ?s) = Suc (length (book_heap s))"
    by (auto simp: Book_init_def lib_def borrowed_def)
  have av: "available ?s b = available s b" if "b < length (book_heap s)" for b
    using that by (simp add: available_Book_init)
  have new: "available ?s (length (book_heap s))"
    by (simp add: Book_init_def available_def)
  have r: "refs_ok l s" and lo: "loans_ok l s" and c: "caps_ok s"
    using assms by (simp_all add: invariant_def)
  have r': "refs_ok l ?s"
    using r by (auto simp: refs_ok_def f)
  have inb: "b < length (book_heap s)" if "m < length (member_heap s)" "b \<in> set (borrowed s m)" for m b
    using that r lo unfolding refs_ok_def loans_ok_def by blast
  have A: "distinct (borrowed ?s m) \<and>
      (\<forall>b \<in> set (borrowed ?s m). b \<in> set (books (lib ?s l)) \<and> \<not> available ?s b \<and>
         m \<in> set (members (lib ?s l)))" if "m < length (member_heap ?s)" for m
    using that lo inb [of m] av unfolding loans_ok_def f by auto
  have B: "\<exists>m < length (member_heap ?s). b \<in> set (borrowed ?s m)"
    if "b < length (book_heap ?s)" "\<not> available ?s b" for b
  proof -
    have "b \<noteq> length (book_heap s)" using that(2) new by auto
    then have "b < length (book_heap s)" using that(1) by (simp add: f)
    then show ?thesis using that(2) lo av unfolding loans_ok_def f by auto
  qed
  have C: "m = m'" if "m < length (member_heap ?s)" "m' < length (member_heap ?s)"
    "b \<in> set (borrowed ?s m)" "b \<in> set (borrowed ?s m')" for m m' b
    using that lo unfolding loans_ok_def f by blast
  have lo': "loans_ok l ?s"
    unfolding loans_ok_def using A B C by blast
  have c': "caps_ok ?s"
    using c by (simp add: caps_ok_def f)
  show ?thesis using r' lo' c' by (simp add: invariant_def)
qed

lemma invariant_Member_init:
  assumes "invariant l s"
  shows "invariant l (snd (Member_init k n i s))"
proof -
  let ?s = "snd (Member_init k n i s)"
  let ?n = "length (member_heap s)"
  have f: "lib ?s = lib s" "available ?s = available s" "book_heap ?s = book_heap s"
    "library_heap ?s = library_heap s" "length (member_heap ?s) = Suc ?n"
    by (auto simp: Member_init_def lib_def available_def)
  have old: "borrowed ?s m = borrowed s m" "cls (member_heap ?s ! m) = cls (member_heap s ! m)"
    if "m < ?n" for m
    using that by (simp_all add: Member_init_def borrowed_def nth_append)
  have new: "borrowed ?s ?n = []"
    by (simp add: Member_init_def borrowed_def)
  have r: "refs_ok l s" and lo: "loans_ok l s" and c: "caps_ok s"
    using assms by (simp_all add: invariant_def)
  have r': "refs_ok l ?s"
    using r by (auto simp: refs_ok_def f)
  have split: "m < ?n \<or> m = ?n" if "m < length (member_heap ?s)" for m
    using that by (auto simp: f)
  have A: "distinct (borrowed ?s m) \<and>
      (\<forall>b \<in> set (borrowed ?s m). b \<in> set (books (lib ?s l)) \<and> \<not> available ?s b \<and>
         m \<in> set (members (lib ?s l)))" if "m < length (member_heap ?s)" for m
    using split [OF that] lo old [of m] new unfolding loans_ok_def f by auto
  have B: "\<exists>m < length (member_heap ?s). b \<in> set (borrowed ?s m)"
    if h: "b < length (book_heap ?s)" "\<not> available ?s b" for b
  proof -
    obtain m where "m < ?n" "b \<in> set (borrowed s m)"
      using h lo unfolding loans_ok_def f by blast
    then have "m < length (member_heap ?s) \<and> b \<in> set (borrowed ?s m)"
      using old [of m] by (simp add: f)
    then show ?thesis by blast
  qed
  have C: "m = m'" if "m < length (member_heap ?s)" "m' < length (member_heap ?s)"
    "b \<in> set (borrowed ?s m)" "b \<in> set (borrowed ?s m')" for m m' b
  proof -
    have "m < ?n" using split [OF that(1)] that(3) new by auto
    moreover have "m' < ?n" using split [OF that(2)] that(4) new by auto
    ultimately show ?thesis using that(3,4) old lo unfolding loans_ok_def by auto
  qed
  have lo': "loans_ok l ?s"
    unfolding loans_ok_def using A B C by blast
  have c': "caps_ok ?s"
    unfolding caps_ok_def
  proof (intro allI impI)
    fix m assume "m < length (member_heap ?s)"
    then show "(cls (member_heap ?s ! m) = StudentMember \<longrightarrow>
           length (borrowed ?s m) \<le> StudentMember_MAX_BORROW) \<and>
        (cls (member_heap ?s ! m) = FacultyMember \<longrightarrow>
           length (borrowed ?s m) \<le> FacultyMember_MAX_BORROW)"
      using split [of m] c old [of m] new unfolding caps_ok_def by auto
  qed
  show ?thesis using r' lo' c' by (simp add: invariant_def)
qed

lemma invariant_add_book:
  assumes "invariant l s" and "x < length (book_heap s)"
  shows "invariant l (add_book l x s)"
proof -
  let ?s = "add_book l x s"
  have r: "refs_ok l s" and lo: "loans_ok l s" and c: "caps_ok s"
    using assms by (simp_all add: invariant_def)
  have l: "l < length (library_heap s)" using r by (simp add: refs_ok_def)
  have f: "available ?s = available s" "borrowed ?s = borrowed s" "book_heap ?s = book_heap s"
    "member_heap ?s = member_heap s" "length (library_heap ?s) = length (library_heap s)"
    "books (lib ?s l) = books (lib s l) @ [x]" "members (lib ?s l) = members (lib s l)"
    using l by (auto simp: add_book_def lib_set_books)
  have r': "refs_ok l ?s"
    using r assms(2) by (auto simp: refs_ok_def f)
  have lo': "loans_ok l ?s"
    using lo unfolding loans_ok_def f by auto
  have c': "caps_ok ?s"
    using c by (simp add: caps_ok_def f)
  show ?thesis using r' lo' c' by (simp add: invariant_def)
qed

lemma invariant_add_member:
  assumes "invariant l s" and "x < length (member_heap s)"
  shows "invariant l (set_members l (members (lib s l) @ [x]) s)"
proof -
  let ?s = "set_members l (members (lib s l) @ [x]) s"
  have r: "refs_ok l s" and lo: "loans_ok l s" and c: "caps_ok s"
    using assms by (simp_all add: invariant_def)
  have l: "l < length (library_heap s)" using r by (simp add: refs_ok_def)
  have f: "available ?s = available s" "borrowed ?s = borrowed s" "book_heap ?s = book_heap s"
    "member_heap ?s = member_heap s" "length (library_heap ?s) = length (library_heap s)"
    "books (lib ?s l) = books (lib s l)" "members (lib ?s l) = members (lib s l) @ [x]"
    using l by (auto simp: lib_set_members)
  have r': "refs_ok l ?s"
    using r assms(2) by (auto simp: refs_ok_def f)
  have lo': "loans_ok l ?s"
    using lo unfolding loans_ok_def f by auto
  have c': "caps_ok ?s"
    using c by (simp add: caps_ok_def f)
  show ?thesis using r' lo' c' by (simp add: invariant_def)
qed

lemma invariant_remove:
  assumes "invariant l s" and "available s x"
  shows "invariant l (set_books l (remove1 x (books (lib s l))) s)"
proof -
  let ?s = "set_books l (remove1 x (books (lib s l))) s"
  have r: "refs_ok l s" and lo: "loans_ok l s" and c: "caps_ok s"
    using assms by (simp_all add: invariant_def)
  have l: "l < length (library_heap s)" using r by (simp add: refs_ok_def)
  have f: "available ?s = available s" "borrowed ?s = borrowed s" "book_heap ?s = book_heap s"
    "member_heap ?s = member_heap s" "length (library_heap ?s) = length (library_heap s)"
    "books (lib ?s l) = remove1 x (books (lib s l))" "members (lib ?s l) = members (lib s l)"
    using l by (auto simp: lib_set_books)
  have sub: "set (remove1 x (books (lib s l))) \<subseteq> set (books (lib s l))"
    by (rule set_remove1_subset)
  have r': "refs_ok l ?s"
    using r sub by (auto simp: refs_ok_def f)
  have keep: "b \<in> set (remove1 x (books (lib s l)))"
    if "b \<in> set (books (lib s l))" "\<not> available s b" for b
  proof -
    have "b \<noteq> x" using that(2) assms(2) by auto
    then show ?thesis using that(1) by (simp add: in_set_remove1)
  qed
  have lo': "loans_ok l ?s"
    using lo keep unfolding loans_ok_def f by blast
  have c': "caps_ok ?s"
    using c by (simp add: caps_ok_def f)
  show ?thesis using r' lo' c' by (simp add: invariant_def)
qed

lemma invariant_borrow:
  assumes "invariant l s" and "m \<in> set (members (lib s l))" and "x \<in> set (books (lib s l))"
    and "available s x"
    and "\<not> (cls (member_heap s ! m) = StudentMember \<and>
             StudentMember_MAX_BORROW \<le> length (borrowed s m))"
    and "\<not> (cls (member_heap s ! m) = FacultyMember \<and>
             FacultyMember_MAX_BORROW \<le> length (borrowed s m))"
  shows "invariant l (set_borrowed m (borrowed s m @ [x]) (set_available x False s))"
proof -
  let ?s = "set_borrowed m (borrowed s m @ [x]) (set_available x False s)"
  have r: "refs_ok l s" and lo: "loans_ok l s" and c: "caps_ok s"
    using assms(1) by (simp_all add: invariant_def)
  have m: "m < length (member_heap s)" and x: "x < length (book_heap s)"
    using r assms(2,3) by (auto simp: refs_ok_def)
  have f: "lib ?s = lib s" "length (book_heap ?s) = length (book_heap s)"
    "length (member_heap ?s) = length (member_heap s)" "library_heap ?s = library_heap s"
    by (auto simp: fun_eq_iff)
  have av: "available (set_available x False s) b = (b \<noteq> x \<and> available s b)" for b
    using x by (auto simp: available_set_available)
  have bo: "borrowed ?s m' = (if m' = m then borrowed s m @ [x] else borrowed s m')" for m'
    using m by (simp add: borrowed_set_borrowed)
  have free: "x \<notin> set (borrowed s m')" if "m' < length (member_heap s)" for m'
    using that lo assms(4) unfolding loans_ok_def by blast
  have r': "refs_ok l ?s"
    using r by (simp add: refs_ok_def f)
  have A: "distinct (borrowed ?s m') \<and>
      (\<forall>b \<in> set (borrowed ?s m'). b \<in> set (books (lib ?s l)) \<and> \<not> available ?s b \<and>
         m' \<in> set (members (lib ?s l)))" if h: "m' < length (member_heap ?s)" for m'
  proof -
    have old: "distinct (borrowed s m') \<and>
      (\<forall>b \<in> set (borrowed s m'). b \<in> set (books (lib s l)) \<and> \<not> available s b \<and>
         m' \<in> set (members (lib s l)))"
      using h lo unfolding loans_ok_def f by blast
    show ?thesis
      using old free [of m'] h assms(2,3) by (auto simp: bo av f)
  qed
  have B: "\<exists>m' < length (member_heap ?s). b \<in> set (borrowed ?s m')"
    if h: "b < length (book_heap ?s)" "\<not> available ?s b" for b
  proof (cases "b = x")
    case True
    then have "m < length (member_heap ?s) \<and> b \<in> set (borrowed ?s m)"
      using m by (simp add: bo f)
    then show ?thesis by blast
  next
    case False
    then obtain m' where "m' < length (member_heap s)" "b \<in> set (borrowed s m')"
      using h lo unfolding loans_ok_def f by (auto simp: av)
    then have "m' < length (member_heap ?s) \<and> b \<in> set (borrowed ?s m')"
      by (auto simp: bo f)
    then show ?thesis by blast
  qed
  have C: "m1 = m2" if h: "m1 < length (member_heap ?s)" "m2 < length (member_heap ?s)"
    "b \<in> set (borrowed ?s m1)" "b \<in> set (borrowed ?s m2)" for m1 m2 b
  proof (cases "b = x")
    case True
    have "m1 = m" using h(1,3) free [of m1] True by (auto simp: bo f split: if_splits)
    moreover have "m2 = m" using h(2,4) free [of m2] True by (auto simp: bo f split: if_splits)
    ultimately show ?thesis by simp
  next
    case False
    then have "b \<in> set (borrowed s m1)" "b \<in> set (borrowed s m2)"
      using h(3,4) by (auto simp: bo split: if_splits)
    then show ?thesis using h(1,2) lo unfolding loans_ok_def f by blast
  qed
  have lo': "loans_ok l ?s"
    unfolding loans_ok_def using A B C by blast
  have c': "caps_ok ?s"
    unfolding caps_ok_def
  proof (intro allI impI)
    fix m' assume "m' < length (member_heap ?s)"
    then have "m' < length (member_heap s)" by (simp add: f)
    then show "(cls (member_heap ?s ! m') = StudentMember \<longrightarrow>
           length (borrowed ?s m') \<le> StudentMember_MAX_BORROW) \<and>
        (cls (member_heap ?s ! m') = FacultyMember \<longrightarrow>
           length (borrowed ?s m') \<le> FacultyMember_MAX_BORROW)"
      using c assms(5,6) unfolding caps_ok_def by (auto simp: bo)
  qed
  show ?thesis using r' lo' c' by (simp add: invariant_def)
qed

lemma invariant_return:
  assumes "invariant l s" and "m \<in> set (members (lib s l))" and "x \<in> set (borrowed s m)"
  shows "invariant l (set_borrowed m (remove1 x (borrowed s m)) (set_available x True s))"
proof -
  let ?s = "set_borrowed m (remove1 x (borrowed s m)) (set_available x True s)"
  have r: "refs_ok l s" and lo: "loans_ok l s" and c: "caps_ok s"
    using assms(1) by (simp_all add: invariant_def)
  have m: "m < length (member_heap s)"
    using r assms(2) by (auto simp: refs_ok_def)
  have dm: "distinct (borrowed s m)"
    using m lo unfolding loans_ok_def by blast
  have x: "x < length (book_heap s)"
    using r lo m assms(3) unfolding refs_ok_def loans_ok_def by blast
  have f: "lib ?s = lib s" "length (book_heap ?s) = length (book_heap s)"
    "length (member_heap ?s) = length (member_heap s)" "library_heap ?s = library_heap s"
    by (auto simp: fun_eq_iff)
  have av: "available (set_available x True s) b = (b = x \<or> available s b)" for b
    using x by (auto simp: available_set_available)
  have bo: "borrowed ?s m' = (if m' = m then remove1 x (borrowed s m) else borrowed s m')" for m'
    using m by (simp add: borrowed_set_borrowed)
  have rest: "set (remove1 x (borrowed s m)) = set (borrowed s m) - {x}"
    using dm by simp
  have only: "x \<notin> set (borrowed s m')" if "m' < length (member_heap s)" "m' \<noteq> m" for m'
    using that lo m assms(3) unfolding loans_ok_def by blast
  have r': "refs_ok l ?s"
    using r by (simp add: refs_ok_def f)
  have A: "distinct (borrowed ?s m') \<and>
      (\<forall>b \<in> set (borrowed ?s m'). b \<in> set (books (lib ?s l)) \<and> \<not> available ?s b \<and>
         m' \<in> set (members (lib ?s l)))" if h: "m' < length (member_heap ?s)" for m'
  proof -
    have old: "distinct (borrowed s m') \<and>
      (\<forall>b \<in> set (borrowed s m'). b \<in> set (books (lib s l)) \<and> \<not> available s b \<and>
         m' \<in> set (members (lib s l)))"
      using h lo unfolding loans_ok_def f by blast
    show ?thesis
    proof (cases "m' = m")
      case True
      then show ?thesis using old by (auto simp: bo av f rest)
    next
      case False
      then show ?thesis using old only [of m'] h by (auto simp: bo av f)
    qed
  qed
  have B: "\<exists>m' < length (member_heap ?s). b \<in> set (borrowed ?s m')"
    if h: "b < length (book_heap ?s)" "\<not> available ?s b" for b
  proof -
    have ne: "b \<noteq> x" and nav: "\<not> available s b" using h(2) by (auto simp: av)
    obtain m' where m': "m' < length (member_heap s)" "b \<in> set (borrowed s m')"
      using h(1) nav lo unfolding loans_ok_def f by blast
    have "b \<in> set (borrowed ?s m')"
      using m'(2) ne by (auto simp: bo rest)
    then show ?thesis using m'(1) by (auto simp: f)
  qed
  have C: "m1 = m2" if h: "m1 < length (member_heap ?s)" "m2 < length (member_heap ?s)"
    "b \<in> set (borrowed ?s m1)" "b \<in> set (borrowed ?s m2)" for m1 m2 b
  proof -
    have "b \<in> set (borrowed s m1)" "b \<in> set (borrowed s m2)"
      using h(3,4) by (auto simp: bo rest split: if_splits)
    then show ?thesis using h(1,2) lo unfolding loans_ok_def f by blast
  qed
  have lo': "loans_ok l ?s"
    unfolding loans_ok_def using A B C by blast
  have c': "caps_ok ?s"
    unfolding caps_ok_def
  proof (intro allI impI)
    fix m' assume "m' < length (member_heap ?s)"
    then have m': "m' < length (member_heap s)" by (simp add: f)
    have "length (remove1 x (borrowed s m)) \<le> length (borrowed s m)"
      by (simp add: length_remove1)
    then show "(cls (member_heap ?s ! m') = StudentMember \<longrightarrow>
           length (borrowed ?s m') \<le> StudentMember_MAX_BORROW) \<and>
        (cls (member_heap ?s ! m') = FacultyMember \<longrightarrow>
           length (borrowed ?s m') \<le> FacultyMember_MAX_BORROW)"
      using c m' unfolding caps_ok_def by (auto simp: bo)
  qed
  show ?thesis using r' lo' c' by (simp add: invariant_def)
qed

lemma invariant_step:
  assumes "invariant l s" and "valid_call s c" and "step l c s = Inr (r, s')"
  shows "invariant l s'"
proof (cases c)
  case (NewBook t a i)
  then have "s' = snd (Book_init t a i s)" using assms(3) by (auto split: prod.splits)
  then show ?thesis using assms(1) by (simp add: invariant_Book_init)
next
  case (NewMember k n i)
  then have "s' = snd (Member_init k n i s)" using assms(3) by (auto split: prod.splits)
  then show ?thesis using assms(1) by (simp add: invariant_Member_init)
next
  case (AddBook x)
  then show ?thesis using assms by (auto simp: invariant_add_book)
next
  case (AddMember x)
  then show ?thesis
    using assms by (auto simp: add_member_eq invariant_add_member split: if_splits)
next
  case (FindBook x)
  then show ?thesis using assms by auto
next
  case (GetMemberById x)
  then show ?thesis using assms by auto
next
  case (RemoveBook bid)
  then obtain ok where ok: "remove_book l bid s = Inr (ok, s')"
    using assms(3) by (auto split: sum.splits)
  from remove_book_cases [OF ok] show ?thesis
    using assms(1) invariant_remove [OF assms(1)] by (auto dest: find_SomeD)
next
  case (Borrow mid bid)
  then obtain ok where ok: "Library_borrow l mid bid s = Inr (ok, s')"
    using assms(3) by (auto split: sum.splits)
  from Library_borrow_cases [OF ok] show ?thesis
  proof
    assume "\<not> ok \<and> s' = s"
    then show ?thesis using assms(1) by simp
  next
    assume "ok \<and> (\<exists>m b. get_member_by_id s l mid = Some m \<and> find_book s l bid = Some b \<and>
        available s b \<and>
        \<not> (cls (member_heap s ! m) = StudentMember \<and>
             StudentMember_MAX_BORROW \<le> length (borrowed s m)) \<and>
        \<not> (cls (member_heap s ! m) = FacultyMember \<and>
             FacultyMember_MAX_BORROW \<le> length (borrowed s m)) \<and>
        s' = set_borrowed m (borrowed s m @ [b]) (set_available b False s))"
    then obtain m b where h: "get_member_by_id s l mid = Some m" "find_book s l bid = Some b"
        "available s b"
        "\<not> (cls (member_heap s ! m) = StudentMember \<and>
             StudentMember_MAX_BORROW \<le> length (borrowed s m))"
        "\<not> (cls (member_heap s ! m) = FacultyMember \<and>
             FacultyMember_MAX_BORROW \<le> length (borrowed s m))"
        "s' = set_borrowed m (borrowed s m @ [b]) (set_available b False s)"
      by blast
    have "m \<in> set (members (lib s l))" "b \<in> set (books (lib s l))"
      using get_member_by_id_Some [OF h(1)] find_book_Some [OF h(2)] by simp_all
    then show ?thesis
      unfolding h(6) using assms(1) h(3,4,5) by (intro invariant_borrow)
  qed
next
  case (ReturnBook mid bid)
  then obtain ok where ok: "Library_return_book l mid bid s = Inr (ok, s')"
    using assms(3) by (auto split: sum.splits)
  from Library_return_book_cases [OF ok] show ?thesis
  proof
    assume "\<not> ok \<and> s' = s"
    then show ?thesis using assms(1) by simp
  next
    assume "ok \<and> (\<exists>m b. get_member_by_id s l mid = Some m \<and>
        List.find (\<lambda>b. get_book_id s b = bid) (borrowed s m) = Some b \<and>
        s' = set_borrowed m (remove1 b (borrowed s m)) (set_available b True s))"
    then obtain m b where h: "get_member_by_id s l mid = Some m"
        "List.find (\<lambda>b. get_book_id s b = bid) (borrowed s m) = Some b"
        "s' = set_borrowed m (remove1 b (borrowed s m)) (set_available b True s)"
      by blast
    have "m \<in> set (members (lib s l))" "b \<in> set (borrowed s m)"
      using get_member_by_id_Some [OF h(1)] find_SomeD [OF h(2)] by simp_all
    then show ?thesis
      unfolding h(3) using assms(1) by (intro invariant_return)
  qed
qed

lemma invariant_step_raise:
  assumes "invariant l s" and "valid_call s c" and "step l c s = Inl (e, s')"
  shows "invariant l s'"
proof (cases c)
  case (AddMember x)
  then show ?thesis
    using assms by (auto simp: add_member_eq invariant_add_member split: if_splits)
next
  case (RemoveBook bid)
  then show ?thesis
    using assms by (auto simp: remove_book_eq split: option.splits if_splits)
next
  case (Borrow mid bid)
  then show ?thesis
    using assms
    by (auto simp: Library_borrow_eq split: option.splits if_splits prod.splits)
next
  case (ReturnBook mid bid)
  then show ?thesis
    using assms by (auto simp: Library_return_book_eq split: option.splits if_splits)
qed (use assms in \<open>auto split: prod.splits\<close>)

lemma invariant_run:
  "invariant l s \<Longrightarrow> run l cs s = Some s' \<Longrightarrow> invariant l s'"
proof (induction cs arbitrary: s)
  case Nil
  then show ?case by simp
next
  case (Cons c cs)
  have v: "valid_call s c"
    using Cons.prems(2) by (auto split: if_splits)
  show ?case
  proof (cases "step l c s")
    case (Inl raised)
    obtain e s1 where st: "step l c s = Inl (e, s1)"
      using Inl by (cases raised) simp
    have rest: "run l cs s1 = Some s'"
      using Cons.prems(2) v st by simp
    have "invariant l s1" using invariant_step_raise [OF Cons.prems(1) v st] .
    then show ?thesis using rest by (rule Cons.IH)
  next
    case (Inr returned)
    obtain r s1 where st: "step l c s = Inr (r, s1)"
      using Inr by (cases returned) simp
    have rest: "run l cs s1 = Some s'"
      using Cons.prems(2) v st by simp
    have "invariant l s1" using invariant_step [OF Cons.prems(1) v st] .
    then show ?thesis using rest by (rule Cons.IH)
  qed
qed

lemma reached_invariant: "run 0 cs (fresh_library n) = Some s \<Longrightarrow> invariant 0 s"
  using invariant_fresh invariant_run by blast

section \<open>Availability and loans\<close>

text \<open>
  Claim C1. Start from a new library in an empty program and run any sequence of calls:
  creating books and members, \<open>add_book\<close>, \<open>add_member\<close>, \<open>borrow\<close>, \<open>return_book\<close>,
  \<open>remove_book\<close> (and the two lookups), going on from the state at the \<open>raise\<close> after
  a call that raised. In the state reached, for every book of the library, the book is
  unavailable if and only if exactly one member of the library has it in its borrowed
  list.
\<close>

theorem unavailable_iff_one_borrower:
  assumes "run 0 cs (fresh_library n) = Some s" and "b \<in> set (books (lib s 0))"
  shows "(\<not> available s b) =
    (\<exists>!m. m \<in> set (members (lib s 0)) \<and> b \<in> set (borrowed s m))"
proof -
  have inv: "invariant 0 s" using assms(1) by (rule reached_invariant)
  then have r: "refs_ok 0 s" and lo: "loans_ok 0 s" by (simp_all add: invariant_def)
  have b: "b < length (book_heap s)" using r assms(2) by (simp add: refs_ok_def)
  have valid: "m < length (member_heap s)" if "m \<in> set (members (lib s 0))" for m
    using r that by (simp add: refs_ok_def)
  show ?thesis
  proof
    assume "\<not> available s b"
    then obtain m where m: "m < length (member_heap s)" "b \<in> set (borrowed s m)"
      using lo b unfolding loans_ok_def by blast
    then have "m \<in> set (members (lib s 0))"
      using lo unfolding loans_ok_def by blast
    moreover have "m' = m" if "m' \<in> set (members (lib s 0))" "b \<in> set (borrowed s m')" for m'
      using valid [OF that(1)] that(2) m lo unfolding loans_ok_def by blast
    ultimately show "\<exists>!m. m \<in> set (members (lib s 0)) \<and> b \<in> set (borrowed s m)"
      using m(2) by blast
  next
    assume "\<exists>!m. m \<in> set (members (lib s 0)) \<and> b \<in> set (borrowed s m)"
    then obtain m where "m \<in> set (members (lib s 0))" "b \<in> set (borrowed s m)" by blast
    then show "\<not> available s b"
      using valid [of m] lo unfolding loans_ok_def by blast
  qed
qed

theorem unavailable_iff_one_borrower_witness:
  "run 0 demo_calls (fresh_library ''Central Library'') = Some demo_state \<and>
   0 \<in> set (books (lib demo_state 0)) \<and> \<not> available demo_state 0 \<and>
   (\<exists>!m. m \<in> set (members (lib demo_state 0)) \<and> 0 \<in> set (borrowed demo_state m)) \<and>
   1 \<in> set (books (lib demo_state 0)) \<and> available demo_state 1 \<and>
   \<not> (\<exists>!m. m \<in> set (members (lib demo_state 0)) \<and> 1 \<in> set (borrowed demo_state m))"
proof -
  have b0: "0 \<in> set (books (lib demo_state 0))" and b1: "1 \<in> set (books (lib demo_state 0))"
    by (simp_all add: demo_state_def lib_def)
  have flags: "\<not> available demo_state 0" "available demo_state 1"
    by (simp_all add: demo_state_def available_def)
  show ?thesis
    using unavailable_iff_one_borrower [OF demo_run b0]
      unavailable_iff_one_borrower [OF demo_run b1] demo_run b0 b1 flags
    by simp
qed

section \<open>Borrowing limits\<close>



section \<open>Removing a book\<close>





end
